theory Spec2Isabelle
  imports Complex_Main "HOL-Library.Log_Nat" "HOL-Library.Multiset"
begin

section \<open>Acad service: student listing and IPS (semester GPA) computation\<close>

text \<open>
  Shallow embedding of \<^verbatim>\<open>acad-service/main.py\<close>: the grade table and
  \<^verbatim>\<open>convert_grade_to_weight\<close>, the request-scoped connection
  \<^verbatim>\<open>get_db_connection\<close>, and the two handlers \<^verbatim>\<open>get_mahasiswas\<close> and
  \<^verbatim>\<open>calculate_ips\<close>.

  Python values are modelled as follows.
  \<^item> \<^verbatim>\<open>str\<close> is \<^typ>\<open>string\<close>; \<^verbatim>\<open>str.upper\<close> maps the ASCII letters a-z to A-Z
    and leaves every other character alone. Outside ASCII Python's Unicode case mapping
    differs, but it never produces one of the characters of the grade table
    (\<^verbatim>\<open>A B C D E + -\<close>) from a character that is not ASCII, so every lookup has
    the same result.
  \<^item> \<^verbatim>\<open>int\<close> is \<^typ>\<open>int\<close> (unbounded).
  \<^item> \<^verbatim>\<open>float\<close> is IEEE 754 binary64, modelled exactly: a finite value is the
    rational it denotes, every operation computes the exact rational result and rounds
    it to the nearest representable value, ties to even. The two zeros are identified
    (Python compares them equal and the handler never divides by a float zero
    without raising).
  \<^item> A raised exception is a value on the left of a sum type.
  \<^item> The data store is a record of what each query answers; every access to it is
    written to a trace of events.
\<close>

subsection \<open>Strings\<close>

definition upper_char :: "char \<Rightarrow> char" where
  "upper_char c =
     (let n = (of_char c :: nat)
      in if 97 \<le> n \<and> n \<le> 122 then char_of (n - 32) else c)"

definition lower_char :: "char \<Rightarrow> char" where
  "lower_char c =
     (let n = (of_char c :: nat)
      in if 65 \<le> n \<and> n \<le> 90 then char_of (n + 32) else c)"

text \<open>\<^verbatim>\<open>s.upper()\<close> and \<^verbatim>\<open>s.lower()\<close>.\<close>

definition upper :: "string \<Rightarrow> string" where
  "upper s = map upper_char s"

definition lower :: "string \<Rightarrow> string" where
  "lower s = map lower_char s"

subsection \<open>Binary64 floating point\<close>

text \<open>Rounding a rational to the nearest integer, ties to the even one.\<close>

definition round_half_even :: "rat \<Rightarrow> int" where
  "round_half_even x =
     (let f = \<lfloor>x\<rfloor>; d = x - of_int f
      in if d < 1 / 2 then f
         else if 1 / 2 < d then f + 1
         else if even f then f else f + 1)"

text \<open>\<open>flog2 x\<close> is the integer \<open>e\<close> with \<open>2\<^sup>e \<le> x < 2\<^sup>e\<^sup>+\<^sup>1\<close>, for positive \<open>x\<close>.\<close>

definition flog2 :: "rat \<Rightarrow> int" where
  "flog2 x =
     (case quotient_of x of (p, q) \<Rightarrow>
        let e = bitlen p - bitlen q
        in if 2 powi e \<le> x then e else e - 1)"

text \<open>
  Round to nearest, ties to even, with a 53-bit significand; below \<open>2\<^sup>-\<^sup>1\<^sup>0\<^sup>2\<^sup>2\<close> the
  spacing stays \<open>2\<^sup>-\<^sup>1\<^sup>0\<^sup>7\<^sup>4\<close> (subnormal numbers). The exponent is not bounded above
  here; \<open>to_double\<close> below turns a result of magnitude \<open>2\<^sup>1\<^sup>0\<^sup>2\<^sup>4\<close> or more, whose
  exponent exceeds the largest one 1023, into an infinity.
\<close>

definition round64 :: "rat \<Rightarrow> rat" where
  "round64 x =
     (if x = 0 then 0
      else let e = max (flog2 \<bar>x\<bar>) (- 1022); q = 2 powi (e - 52)
           in of_int (round_half_even (x / q)) * q)"

datatype pyfloat = Fin rat | PInf | NInf | NaN

definition to_double :: "rat \<Rightarrow> pyfloat" where
  "to_double x =
     (let y = round64 x
      in if y = 0 \<or> flog2 \<bar>y\<bar> < 1024 then Fin y
         else if 0 < y then PInf
         else NInf)"

definition inf_of_sign :: "bool \<Rightarrow> pyfloat" where
  "inf_of_sign positive = (if positive then PInf else NInf)"

fun fadd :: "pyfloat \<Rightarrow> pyfloat \<Rightarrow> pyfloat" where
  "fadd (Fin a) (Fin b) = to_double (a + b)"
| "fadd NaN _ = NaN"
| "fadd _ NaN = NaN"
| "fadd PInf NInf = NaN"
| "fadd NInf PInf = NaN"
| "fadd PInf _ = PInf"
| "fadd NInf _ = NInf"
| "fadd _ PInf = PInf"
| "fadd _ NInf = NInf"

fun fmul :: "pyfloat \<Rightarrow> pyfloat \<Rightarrow> pyfloat" where
  "fmul (Fin a) (Fin b) = to_double (a * b)"
| "fmul NaN _ = NaN"
| "fmul _ NaN = NaN"
| "fmul (Fin a) PInf = (if a = 0 then NaN else inf_of_sign (0 < a))"
| "fmul (Fin a) NInf = (if a = 0 then NaN else inf_of_sign (a < 0))"
| "fmul PInf (Fin b) = (if b = 0 then NaN else inf_of_sign (0 < b))"
| "fmul NInf (Fin b) = (if b = 0 then NaN else inf_of_sign (b < 0))"
| "fmul PInf PInf = PInf"
| "fmul NInf NInf = PInf"
| "fmul PInf NInf = NInf"
| "fmul NInf PInf = NInf"

datatype py_exception =
    DatabaseError string
  | AttributeError string
  | OverflowError string
  | ZeroDivisionError string
  | IndexError string

text \<open>\<^verbatim>\<open>str(e)\<close>: the message of the exception.\<close>

fun str_exception :: "py_exception \<Rightarrow> string" where
  "str_exception (DatabaseError m) = m"
| "str_exception (AttributeError m) = m"
| "str_exception (OverflowError m) = m"
| "str_exception (ZeroDivisionError m) = m"
| "str_exception (IndexError m) = m"

text \<open>Python's float division raises on a zero divisor.\<close>

fun fdiv :: "pyfloat \<Rightarrow> pyfloat \<Rightarrow> py_exception + pyfloat" where
  "fdiv a (Fin b) =
     (if b = 0 then Inl (ZeroDivisionError ''float division by zero'')
      else case a of
             Fin x \<Rightarrow> Inr (to_double (x / b))
           | PInf \<Rightarrow> Inr (inf_of_sign (0 < b))
           | NInf \<Rightarrow> Inr (inf_of_sign (b < 0))
           | NaN \<Rightarrow> Inr NaN)"
| "fdiv a NaN = Inr NaN"
| "fdiv a PInf = (case a of Fin x \<Rightarrow> Inr (Fin 0) | _ \<Rightarrow> Inr NaN)"
| "fdiv a NInf = (case a of Fin x \<Rightarrow> Inr (Fin 0) | _ \<Rightarrow> Inr NaN)"

text \<open>
  The conversion of an \<^verbatim>\<open>int\<close> operand, done by \<^verbatim>\<open>float * int\<close> and
  \<^verbatim>\<open>float / int\<close>: correctly rounded, and an \<^verbatim>\<open>OverflowError\<close> when the
  result is out of range.
\<close>

definition float_of_int :: "int \<Rightarrow> py_exception + pyfloat" where
  "float_of_int n =
     (case to_double (of_int n) of
        Fin y \<Rightarrow> Inr (Fin y)
      | _ \<Rightarrow> Inl (OverflowError ''int too large to convert to float''))"

definition fmul_int :: "pyfloat \<Rightarrow> int \<Rightarrow> py_exception + pyfloat" where
  "fmul_int a n =
     (case float_of_int n of Inl e \<Rightarrow> Inl e | Inr b \<Rightarrow> Inr (fmul a b))"

definition fdiv_int :: "pyfloat \<Rightarrow> int \<Rightarrow> py_exception + pyfloat" where
  "fdiv_int a n =
     (case float_of_int n of Inl e \<Rightarrow> Inl e | Inr b \<Rightarrow> fdiv a b)"

text \<open>
  \<^verbatim>\<open>round(x, 2)\<close>: the exact value of \<open>x\<close> is rounded to two decimals, ties to
  even, and the decimal is converted back to the nearest float. Infinities and NaN are
  returned as they are.
\<close>

definition round2_exact :: "rat \<Rightarrow> rat" where
  "round2_exact x = of_int (round_half_even (x * 100)) / 100"

fun py_round2 :: "pyfloat \<Rightarrow> pyfloat" where
  "py_round2 (Fin x) = to_double (round2_exact x)"
| "py_round2 PInf = PInf"
| "py_round2 NInf = NInf"
| "py_round2 NaN = NaN"

subsection \<open>Grade table\<close>

text \<open>\<^verbatim>\<open>d.get(k, default)\<close> on a dictionary given by its items.\<close>

definition dict_get :: "('k \<times> 'v) list \<Rightarrow> 'k \<Rightarrow> 'v \<Rightarrow> 'v" where
  "dict_get d k dflt = (case map_of d k of None \<Rightarrow> dflt | Some v \<Rightarrow> v)"

definition grade_map :: "(string \<times> pyfloat) list" where
  "grade_map =
     [(''A'', Fin 4), (''B+'', Fin (7 / 2)), (''B'', Fin 3), (''B-'', Fin (11 / 4)),
      (''C+'', Fin (5 / 2)), (''C'', Fin 2), (''D'', Fin 1), (''E'', Fin 0)]"

text \<open>
  The argument is whatever the row holds in column \<^verbatim>\<open>nilai\<close>: a string, or
  \<^verbatim>\<open>None\<close> for SQL NULL, on which \<^verbatim>\<open>.upper()\<close> raises.
\<close>

definition none_has_no_upper :: py_exception where
  "none_has_no_upper =
     AttributeError
       (CHR 0x27 # ''NoneType'' @ CHR 0x27 # '' object has no attribute ''
        @ CHR 0x27 # ''upper'' @ [CHR 0x27])"

definition convert_grade_to_weight :: "string option \<Rightarrow> py_exception + pyfloat" where
  "convert_grade_to_weight nilai_huruf =
     (case nilai_huruf of
        None \<Rightarrow> Inl none_has_no_upper
      | Some s \<Rightarrow> Inr (dict_get grade_map (upper s) (Fin 0)))"

subsection \<open>Rows, responses and the data store\<close>

record krs_row =
  row_nim :: string
  row_nama :: string
  row_jurusan :: string
  nilai :: "string option"
  sks :: int

record mahasiswa_info =
  info_nim :: string
  info_nama :: string
  info_jurusan :: string

record ips_response =
  mahasiswa :: mahasiswa_info
  total_sks_diambil :: int
  total_bobot_sks :: pyfloat
  ips :: pyfloat

text \<open>A row of table \<^verbatim>\<open>mahasiswa\<close> as the plain cursor returns it: a 4-tuple.\<close>

type_synonym mahasiswa_row = "string \<times> string \<times> string \<times> int"

record mahasiswa_record =
  nim :: string
  nama :: string
  jurusan :: string
  angkatan :: int

datatype query = SelectAllMahasiswa | SelectKrsJoin string

datatype event = Connect | Execute query | Commit | Rollback | Close

text \<open>
  The store: whether \<^verbatim>\<open>psycopg2.connect\<close> fails (with which message), and what
  each of the two queries answers: an error message, or the rows fetched.
\<close>

record db =
  connect_error :: "string option"
  select_mahasiswa :: "string + mahasiswa_row list"
  select_krs :: "string \<Rightarrow> string + krs_row list"

datatype http_exception = HTTPException nat string

datatype raised = RaisedHTTP http_exception | RaisedOther py_exception

text \<open>
  \<^verbatim>\<open>with get_db_connection() as conn: body\<close>. A failing connect raises before
  the \<^verbatim>\<open>try\<close>; otherwise the body runs, followed by commit and close, or by
  rollback and close when the body raised, and the exception is raised again.
  \<open>wrap\<close> says how the caller's exception type holds a driver error.
\<close>

definition get_db_connection ::
  "db \<Rightarrow> (py_exception \<Rightarrow> 'e) \<Rightarrow> event list \<times> ('e + 'a) \<Rightarrow> event list \<times> ('e + 'a)" where
  "get_db_connection d wrap body =
     (case connect_error d of
        Some msg \<Rightarrow> ([Connect], Inl (wrap (DatabaseError msg)))
      | None \<Rightarrow>
          (case body of
             (evs, Inr v) \<Rightarrow> (Connect # evs @ [Commit, Close], Inr v)
           | (evs, Inl e) \<Rightarrow> (Connect # evs @ [Rollback, Close], Inl e)))"

subsection \<open>Student listing\<close>

definition mahasiswa_dict :: "mahasiswa_row \<Rightarrow> mahasiswa_record" where
  "mahasiswa_dict row =
     (case row of (c0, c1, c2, c3) \<Rightarrow>
        \<lparr>nim = c0, nama = c1, jurusan = c2, angkatan = c3\<rparr>)"

definition get_mahasiswas_body :: "db \<Rightarrow> event list \<times> (py_exception + mahasiswa_record list)" where
  "get_mahasiswas_body d =
     ([Execute SelectAllMahasiswa],
      case select_mahasiswa d of
        Inl msg \<Rightarrow> Inl (DatabaseError msg)
      | Inr rows \<Rightarrow> Inr (map mahasiswa_dict rows))"

definition get_mahasiswas :: "db \<Rightarrow> event list \<times> (http_exception + mahasiswa_record list)" where
  "get_mahasiswas d =
     (case get_db_connection d id (get_mahasiswas_body d) of
        (evs, Inl e) \<Rightarrow> (evs, Inl (HTTPException 500 (str_exception e)))
      | (evs, Inr v) \<Rightarrow> (evs, Inr v))"

subsection \<open>IPS computation\<close>

text \<open>
  The first two steps of the loop body, for one row: the weight of the grade, times the
  credit hours (\<^verbatim>\<open>bobot_sks_matkul\<close>).
\<close>

definition bobot_sks_matkul :: "krs_row \<Rightarrow> py_exception + pyfloat" where
  "bobot_sks_matkul row =
     (case convert_grade_to_weight (nilai row) of
        Inl e \<Rightarrow> Inl e
      | Inr bobot_nilai \<Rightarrow> fmul_int bobot_nilai (sks row))"

text \<open>The \<^verbatim>\<open>for\<close> loop over the rows, with its two accumulators.\<close>

fun accumulate :: "krs_row list \<Rightarrow> pyfloat \<Rightarrow> int \<Rightarrow> py_exception + (pyfloat \<times> int)" where
  "accumulate [] acc_bobot_sks acc_sks = Inr (acc_bobot_sks, acc_sks)"
| "accumulate (row # rows) acc_bobot_sks acc_sks =
     (case bobot_sks_matkul row of
        Inl e \<Rightarrow> Inl e
      | Inr product \<Rightarrow>
          accumulate rows (fadd acc_bobot_sks product) (acc_sks + sks row))"

text \<open>The value of variable \<^verbatim>\<open>ips\<close> before it is rounded.\<close>

definition ips_of_totals :: "pyfloat \<Rightarrow> int \<Rightarrow> py_exception + pyfloat" where
  "ips_of_totals acc_bobot_sks acc_sks =
     (if acc_sks = 0 then Inr (Fin 0) else fdiv_int acc_bobot_sks acc_sks)"

text \<open>The loop followed by the division: variable \<^verbatim>\<open>ips\<close> as line 148 leaves it.\<close>

definition unrounded_ips :: "krs_row list \<Rightarrow> py_exception + pyfloat" where
  "unrounded_ips rows =
     (case accumulate rows (Fin 0) 0 of
        Inl e \<Rightarrow> Inl e
      | Inr (acc_bobot_sks, acc_sks) \<Rightarrow> ips_of_totals acc_bobot_sks acc_sks)"

text \<open>Everything after the emptiness check: the loop, the division, the response.\<close>

definition compute_ips :: "krs_row list \<Rightarrow> py_exception + ips_response" where
  "compute_ips rows =
     (case accumulate rows (Fin 0) 0 of
        Inl e \<Rightarrow> Inl e
      | Inr (acc_bobot_sks, acc_sks) \<Rightarrow>
          (case ips_of_totals acc_bobot_sks acc_sks of
             Inl e \<Rightarrow> Inl e
           | Inr ips_value \<Rightarrow>
               (case rows of
                  [] \<Rightarrow> Inl (IndexError ''list index out of range'')
                | first # _ \<Rightarrow>
                    Inr \<lparr>mahasiswa =
                           \<lparr>info_nim = row_nim first, info_nama = row_nama first,
                            info_jurusan = row_jurusan first\<rparr>,
                         total_sks_diambil = acc_sks,
                         total_bobot_sks = py_round2 acc_bobot_sks,
                         ips = py_round2 ips_value\<rparr>)))"

definition not_found_detail :: "string \<Rightarrow> string" where
  "not_found_detail n = ''Data KRS tidak ditemukan untuk NIM '' @ n"

definition calculate_ips_body :: "db \<Rightarrow> string \<Rightarrow> event list \<times> (raised + ips_response)" where
  "calculate_ips_body d n =
     ([Execute (SelectKrsJoin n)],
      case select_krs d n of
        Inl msg \<Rightarrow> Inl (RaisedOther (DatabaseError msg))
      | Inr rows \<Rightarrow>
          if rows = [] then Inl (RaisedHTTP (HTTPException 404 (not_found_detail n)))
          else (case compute_ips rows of
                  Inl e \<Rightarrow> Inl (RaisedOther e)
                | Inr r \<Rightarrow> Inr r))"

text \<open>
  The two \<^verbatim>\<open>except\<close> clauses of \<^verbatim>\<open>calculate_ips\<close>, in their order: an
  \<^verbatim>\<open>HTTPException\<close> is raised again as it is, any other exception becomes a 500.
\<close>

definition ips_except :: "raised + 'a \<Rightarrow> http_exception + 'a" where
  "ips_except r =
     (case r of
        Inl (RaisedHTTP h) \<Rightarrow> Inl h
      | Inl (RaisedOther e) \<Rightarrow>
          Inl (HTTPException 500 (''Terjadi kesalahan server: '' @ str_exception e))
      | Inr v \<Rightarrow> Inr v)"

definition calculate_ips :: "db \<Rightarrow> string \<Rightarrow> event list \<times> (http_exception + ips_response)" where
  "calculate_ips d n =
     (case get_db_connection d RaisedOther (calculate_ips_body d n) of
        (evs, r) \<Rightarrow> (evs, ips_except r))"

text \<open>
  The route \<^verbatim>\<open>GET /api/acad/ips\<close>: the declaration
  \<^verbatim>\<open>nim: str = Query(..., min_length=5)\<close> makes the framework validate the
  parameter first and answer 422 without calling the handler when it is too short.
\<close>

datatype route_error = RequestValidationError | HandlerError http_exception

fun status_code :: "route_error \<Rightarrow> nat" where
  "status_code RequestValidationError = 422"
| "status_code (HandlerError (HTTPException c _)) = c"

definition get_api_acad_ips :: "db \<Rightarrow> string \<Rightarrow> event list \<times> (route_error + ips_response)" where
  "get_api_acad_ips d n =
     (if length n < 5 then ([], Inl RequestValidationError)
      else case calculate_ips d n of
             (evs, Inl h) \<Rightarrow> (evs, Inl (HandlerError h))
           | (evs, Inr v) \<Rightarrow> (evs, Inr v))"

subsection \<open>The computation as the specification words it\<close>

text \<open>
  The grade table of the specification, read without regard to case; any other grade
  weighs 0.
\<close>

definition spec_weight :: "string \<Rightarrow> rat" where
  "spec_weight g =
     (let u = upper g
      in if u = ''A'' then 4
         else if u = ''B+'' then 7 / 2
         else if u = ''B'' then 3
         else if u = ''B-'' then 11 / 4
         else if u = ''C+'' then 5 / 2
         else if u = ''C'' then 2
         else if u = ''D'' then 1
         else if u = ''E'' then 0
         else 0)"

definition row_weight :: "krs_row \<Rightarrow> rat" where
  "row_weight r = (case nilai r of None \<Rightarrow> 0 | Some g \<Rightarrow> spec_weight g)"

text \<open>The two sums of the specification, in exact arithmetic.\<close>

definition weighted_sum :: "krs_row list \<Rightarrow> rat" where
  "weighted_sum rows = (\<Sum>r\<leftarrow>rows. row_weight r * of_int (sks r))"

definition total_credits :: "krs_row list \<Rightarrow> int" where
  "total_credits rows = (\<Sum>r\<leftarrow>rows. sks r)"

text \<open>The GPA of the specification, in exact arithmetic: 0 when no credit was taken.\<close>

definition spec_gpa :: "krs_row list \<Rightarrow> rat" where
  "spec_gpa rows =
     (if total_credits rows = 0 then 0
      else weighted_sum rows / of_int (total_credits rows))"

text \<open>The size of the credit hours of a list of rows, whatever their signs.\<close>

definition credit_magnitude :: "krs_row list \<Rightarrow> int" where
  "credit_magnitude rows = (\<Sum>r\<leftarrow>rows. \<bar>sks r\<bar>)"

text \<open>Whether no row has negative credit hours.\<close>

definition nonnegative_credits :: "krs_row list \<Rightarrow> bool" where
  "nonnegative_credits rows = list_all (\<lambda>r. 0 \<le> sks r) rows"

text \<open>Whether every row carries a grade string (no SQL NULL).\<close>

definition graded :: "krs_row list \<Rightarrow> bool" where
  "graded rows = list_all (\<lambda>r. nilai r \<noteq> None) rows"

text \<open>The three numbers of a response.\<close>

definition numbers :: "ips_response \<Rightarrow> int \<times> pyfloat \<times> pyfloat" where
  "numbers r = (total_sks_diambil r, total_bobot_sks r, ips r)"

subsection \<open>Sample data\<close>

text \<open>A row of student 12345 with the given grade and credit hours.\<close>

definition sample_row :: "string option \<Rightarrow> int \<Rightarrow> krs_row" where
  "sample_row g s =
     \<lparr>row_nim = ''12345'', row_nama = ''Budi'', row_jurusan = ''Informatika'',
      nilai = g, sks = s\<rparr>"

text \<open>A reachable store holding two students, where student 12345 has the given rows.\<close>

definition sample_db :: "krs_row list \<Rightarrow> db" where
  "sample_db rows =
     \<lparr>connect_error = None,
      select_mahasiswa =
        Inr [(''12345'', ''Budi'', ''Informatika'', 2023), (''67890'', ''Sari'', ''Sistem Informasi'', 2022)],
      select_krs = (\<lambda>n. if n = ''12345'' then Inr rows else Inr [])\<rparr>"

text \<open>A store that cannot be reached, and one whose queries fail.\<close>

definition unreachable_db :: db where
  "unreachable_db =
     \<lparr>connect_error = Some ''connection refused'',
      select_mahasiswa = Inr [],
      select_krs = (\<lambda>n. Inr [])\<rparr>"

definition failing_db :: db where
  "failing_db =
     \<lparr>connect_error = None,
      select_mahasiswa = Inl ''relation does not exist'',
      select_krs = (\<lambda>n. Inl ''relation does not exist'')\<rparr>"

section \<open>Properties of the floating-point operations\<close>

lemma round_half_even_of_int: "round_half_even (of_int n) = n"
  by (simp add: round_half_even_def)

lemma floor_le_round_half_even: "\<lfloor>x\<rfloor> \<le> round_half_even x"
  by (simp add: round_half_even_def Let_def)

lemma round_half_even_le_ceiling: "round_half_even x \<le> \<lceil>x\<rceil>"
proof (cases "x = of_int \<lfloor>x\<rfloor>")
  case True
  then have "round_half_even x = \<lfloor>x\<rfloor>"
    by (metis round_half_even_of_int)
  then show ?thesis
    by (simp add: floor_le_ceiling)
next
  case False
  then have "\<lceil>x\<rceil> = \<lfloor>x\<rfloor> + 1"
    by (simp add: ceiling_altdef)
  then show ?thesis
    by (simp add: round_half_even_def Let_def)
qed

lemma round_half_even_ge: "of_int a \<le> x \<Longrightarrow> a \<le> round_half_even x"
  using floor_le_round_half_even [of x] le_floor_iff [of a x] by linarith

lemma round_half_even_le: "x \<le> of_int b \<Longrightarrow> round_half_even x \<le> b"
  using round_half_even_le_ceiling [of x] ceiling_le_iff [of x b] by linarith

lemma powi_nat: "0 \<le> e \<Longrightarrow> (2::rat) powi e = 2 ^ nat e"
  by (simp add: power_int_def)

lemma bitlen_powi:
  assumes "0 < p"
  shows "(2::rat) powi (bitlen p - 1) \<le> of_int p" and "of_int p < (2::rat) powi (bitlen p)"
proof -
  have b: "1 \<le> bitlen p"
    using assms bitlen_eq_zero_iff [of p] bitlen_nonneg [of p] by linarith
  have "(2::int) ^ nat (bitlen p - 1) \<le> p" and "p < (2::int) ^ nat (bitlen p)"
    using bitlen_bounds [OF assms] by simp_all
  then have "(of_int ((2::int) ^ nat (bitlen p - 1)) :: rat) \<le> of_int p"
    and "(of_int p :: rat) < of_int ((2::int) ^ nat (bitlen p))"
    by (simp_all only: of_int_le_iff of_int_less_iff)
  then show "(2::rat) powi (bitlen p - 1) \<le> of_int p" and "of_int p < (2::rat) powi (bitlen p)"
    using b by (simp_all add: powi_nat)
qed

lemma flog2_bounds:
  assumes "0 < x"
  shows "2 powi (flog2 x) \<le> x" and "x < 2 powi (flog2 x + 1)"
proof -
  obtain p q where pq: "quotient_of x = (p, q)"
    by (cases "quotient_of x")
  have q: "0 < q" and x: "x = of_int p / of_int q"
    using pq quotient_of_denom_pos quotient_of_div by blast+
  have p: "0 < p"
    using assms q x by (simp add: zero_less_divide_iff)
  define e where "e = bitlen p - bitlen q"
  have lo: "(2::rat) powi (e - 1) < x"
  proof -
    have "(2::rat) powi (e - 1) = 2 powi (bitlen p - 1) / 2 powi (bitlen q)"
      by (simp add: e_def power_int_diff)
    also have "\<dots> \<le> of_int p / 2 powi (bitlen q)"
      using bitlen_powi(1) [OF p] by (simp add: divide_right_mono)
    also have "\<dots> < of_int p / of_int q"
      using bitlen_powi(2) [OF q] p q by (simp add: divide_strict_left_mono)
    finally show ?thesis using x by simp
  qed
  have hi: "x < (2::rat) powi (e + 1)"
  proof -
    have "x = of_int p / of_int q" by (rule x)
    also have "\<dots> < 2 powi (bitlen p) / of_int q"
      using bitlen_powi(2) [OF p] q by (simp add: divide_strict_right_mono)
    also have "\<dots> \<le> 2 powi (bitlen p) / 2 powi (bitlen q - 1)"
      using bitlen_powi(1) [OF q] q by (simp add: divide_left_mono)
    also have "\<dots> = (2::rat) powi (e + 1)"
      by (simp add: e_def power_int_diff power_int_add)
    finally show ?thesis .
  qed
  have f: "flog2 x = (if 2 powi e \<le> x then e else e - 1)"
    by (simp add: flog2_def pq e_def Let_def)
  show "2 powi (flog2 x) \<le> x"
    using lo by (simp add: f)
  show "x < 2 powi (flog2 x + 1)"
    using hi by (simp add: f)
qed

lemma flog2_less:
  assumes "0 < x" and "x < 2 powi k"
  shows "flog2 x < k"
proof (rule ccontr)
  assume "\<not> flog2 x < k"
  then have "(2::rat) powi k \<le> 2 powi (flog2 x)"
    by (simp add: power_int_increasing)
  with flog2_bounds(1) [OF assms(1)] assms(2) show False
    by linarith
qed

lemma round64_exact:
  assumes "x = of_int m * 2 powi k" and "\<bar>m\<bar> < 2 ^ 53" and "- 1074 \<le> k"
  shows "round64 x = x"
proof (cases "m = 0")
  case True
  then show ?thesis using assms(1) by (simp add: round64_def)
next
  case False
  define e where "e = max (flog2 \<bar>x\<bar>) (- 1022)"
  have ax: "\<bar>x\<bar> = of_int \<bar>m\<bar> * 2 powi k"
    by (simp add: assms(1) abs_mult)
  have xpos: "0 < \<bar>x\<bar>"
    using False by (simp add: assms(1))
  have "of_int \<bar>m\<bar> < (2::rat) ^ 53"
    using assms(2) by (metis of_int_less_iff of_int_numeral of_int_power)
  then have "\<bar>x\<bar> < 2 ^ 53 * 2 powi k"
    unfolding ax by (simp add: mult_strict_right_mono)
  also have "\<dots> = (2::rat) powi (53 + k)"
    by (simp add: power_int_add)
  finally have "flog2 \<bar>x\<bar> < 53 + k"
    using flog2_less [OF xpos] by simp
  then have ek: "e - 52 \<le> k"
    using assms(3) by (simp add: e_def)
  define j where "j = nat (k - (e - 52))"
  have kj: "k = (e - 52) + int j"
    using ek by (simp add: j_def)
  have "x / 2 powi (e - 52) = of_int m * 2 ^ j"
    by (simp add: assms(1) kj power_int_add)
  also have "\<dots> = of_int (m * 2 ^ j)"
    by simp
  finally have "round_half_even (x / 2 powi (e - 52)) = m * 2 ^ j"
    by (simp only: round_half_even_of_int)
  then have "round64 x = of_int (m * 2 ^ j) * 2 powi (e - 52)"
    using xpos by (simp add: round64_def e_def Let_def)
  also have "\<dots> = x"
    by (simp add: assms(1) kj power_int_add)
  finally show ?thesis .
qed

lemma round64_abs_le:
  assumes "\<bar>x\<bar> \<le> 2 powi k" and "- 1021 \<le> k"
  shows "\<bar>round64 x\<bar> \<le> 2 powi k"
proof -
  consider "x = 0" | "\<bar>x\<bar> = 2 powi k" | "x \<noteq> 0" "\<bar>x\<bar> < 2 powi k"
    using assms(1) by linarith
  then show ?thesis
  proof cases
    case 1
    then show ?thesis by (simp add: round64_def)
  next
    case 2
    have "round64 x = x"
    proof (cases "0 \<le> x")
      case True
      with 2 have "x = of_int 1 * 2 powi k" by simp
      then show ?thesis
        by (rule round64_exact) (use assms(2) in simp_all)
    next
      case False
      with 2 have "x = of_int (- 1) * 2 powi k" by simp
      then show ?thesis
        by (rule round64_exact) (use assms(2) in simp_all)
    qed
    then show ?thesis using 2 by simp
  next
    case 3
    define e where "e = max (flog2 \<bar>x\<bar>) (- 1022)"
    define q where "q = (2::rat) powi (e - 52)"
    have qpos: "0 < q" by (simp add: q_def)
    have "flog2 \<bar>x\<bar> < k"
      using flog2_less [of "\<bar>x\<bar>" k] 3 by simp
    then have ek: "e < k"
      using assms(2) by (simp add: e_def)
    define j where "j = nat (k - (e - 52))"
    have kj: "k = (e - 52) + int j"
      using ek by (simp add: j_def)
    have pk: "(2::rat) powi k = of_int (2 ^ j) * q"
      by (simp add: q_def kj power_int_add)
    have "\<bar>x / q\<bar> < of_int (2 ^ j)"
      using 3(2) qpos by (simp add: pk pos_divide_less_eq)
    then have up: "x / q \<le> of_int (2 ^ j)" and lo: "of_int (- (2 ^ j)) \<le> x / q"
      unfolding of_int_minus by linarith+
    have "round_half_even (x / q) \<le> 2 ^ j" and "- (2 ^ j) \<le> round_half_even (x / q)"
      using round_half_even_le [OF up] round_half_even_ge [OF lo] by simp_all
    then have "\<bar>round_half_even (x / q)\<bar> \<le> 2 ^ j"
      by linarith
    then have "\<bar>of_int (round_half_even (x / q)) :: rat\<bar> \<le> of_int (2 ^ j)"
      by (metis of_int_abs of_int_le_iff)
    then have "\<bar>of_int (round_half_even (x / q)) * q\<bar> \<le> of_int (2 ^ j) * q"
      using qpos by (simp add: abs_mult mult_right_mono)
    moreover have "round64 x = of_int (round_half_even (x / q)) * q"
      using 3(1) by (simp add: round64_def e_def q_def Let_def)
    ultimately show ?thesis by (simp add: pk)
  qed
qed

lemma round64_nonneg:
  assumes "0 \<le> x"
  shows "0 \<le> round64 x"
proof (cases "x = 0")
  case True
  then show ?thesis by (simp add: round64_def)
next
  case False
  define q where "q = (2::rat) powi (max (flog2 \<bar>x\<bar>) (- 1022) - 52)"
  have qpos: "0 < q" by (simp add: q_def)
  then have "of_int 0 \<le> x / q" using assms by simp
  then have "0 \<le> round_half_even (x / q)"
    by (rule round_half_even_ge)
  then have "0 \<le> of_int (round_half_even (x / q)) * q"
    using qpos by simp
  then show ?thesis
    using False by (simp add: round64_def q_def Let_def)
qed

section \<open>Exactness of the accumulation within the range of the floats\<close>

lemma spec_weight_cases:
  "spec_weight g \<in> {of_int 16 / 4, of_int 14 / 4, of_int 12 / 4, of_int 11 / 4,
                     of_int 10 / 4, of_int 8 / 4, of_int 4 / 4, of_int 0 / 4}"
  by (simp add: spec_weight_def Let_def)

lemma spec_weight_quarters: "\<exists>n. 0 \<le> n \<and> n \<le> 16 \<and> spec_weight g = of_int n / 4"
  using spec_weight_cases [of g]
  apply (elim insertE emptyE)
  subgoal by (rule exI [of _ 16]) simp
  subgoal by (rule exI [of _ 14]) simp
  subgoal by (rule exI [of _ 12]) simp
  subgoal by (rule exI [of _ 11]) simp
  subgoal by (rule exI [of _ 10]) simp
  subgoal by (rule exI [of _ 8]) simp
  subgoal by (rule exI [of _ 4]) simp
  subgoal by (rule exI [of _ 0]) simp
  done

lemma convert_grade_to_weight_Some:
  "convert_grade_to_weight (Some g) = Inr (Fin (spec_weight g))"
  by (simp add: convert_grade_to_weight_def dict_get_def grade_map_def spec_weight_def Let_def)

lemma to_double_finite:
  assumes "\<bar>round64 x\<bar> < 2 ^ 1024"
  shows "to_double x = Fin (round64 x)"
proof (cases "round64 x = 0")
  case True
  then show ?thesis by (simp add: to_double_def)
next
  case False
  then have "flog2 \<bar>round64 x\<bar> < 1024"
    using assms by (intro flog2_less) simp_all
  then show ?thesis by (simp add: to_double_def)
qed

lemma to_double_Fin:
  assumes "round64 x = x" and "\<bar>x\<bar> < 2 ^ 1024"
  shows "to_double x = Fin x"
  using to_double_finite [of x] assms by simp

lemma round64_quarters:
  assumes "\<bar>m\<bar> < 2 ^ 53"
  shows "round64 (of_int m / 4) = of_int m / 4"
  by (rule round64_exact [where m = m and k = "- 2"]) (use assms in \<open>simp_all add: power_int_minus\<close>)

lemma to_double_quarters:
  assumes "\<bar>m\<bar> < 2 ^ 53"
  shows "to_double (of_int m / 4) = Fin (of_int m / 4)"
proof (rule to_double_Fin [OF round64_quarters [OF assms]])
  have "\<bar>of_int m :: rat\<bar> < 2 ^ 53"
    using assms by (metis of_int_abs of_int_less_iff of_int_numeral of_int_power)
  then have "\<bar>of_int m / 4 :: rat\<bar> < 2 ^ 53"
    by simp
  also have "(2::rat) ^ 53 < 2 ^ 1024"
    by (rule power_strict_increasing) simp_all
  finally show "\<bar>of_int m / 4 :: rat\<bar> < 2 ^ 1024" .
qed

lemma to_double_of_int:
  assumes "\<bar>n\<bar> < 2 ^ 51"
  shows "to_double (of_int n) = Fin (of_int n)"
proof -
  have "\<bar>n * 4\<bar> < 2 ^ 53"
    using assms by simp
  from to_double_quarters [OF this] show ?thesis
    by simp
qed

lemma float_of_int_exact:
  "\<bar>n\<bar> < 2 ^ 51 \<Longrightarrow> float_of_int n = Inr (Fin (of_int n))"
  by (simp add: float_of_int_def to_double_of_int)

lemma fmul_int_weight:
  assumes "\<bar>s\<bar> < 2 ^ 49"
  shows "fmul_int (Fin (spec_weight g)) s = Inr (Fin (spec_weight g * of_int s))"
proof -
  obtain n where n: "0 \<le> n" "n \<le> 16" "spec_weight g = of_int n / 4"
    using spec_weight_quarters by blast
  have "\<bar>n * s\<bar> \<le> 16 * \<bar>s\<bar>"
    using n(1,2) by (simp add: abs_mult mult_right_mono)
  then have "\<bar>n * s\<bar> < 2 ^ 53"
    using assms by simp
  from to_double_quarters [OF this]
  have "to_double (spec_weight g * of_int s) = Fin (spec_weight g * of_int s)"
    by (simp add: n(3))
  moreover have "float_of_int s = Inr (Fin (of_int s))"
    using assms by (intro float_of_int_exact) simp
  ultimately show ?thesis
    by (simp add: fmul_int_def)
qed

lemma credit_magnitude_Cons [simp]:
  "credit_magnitude (r # rows) = \<bar>sks r\<bar> + credit_magnitude rows"
  by (simp add: credit_magnitude_def)

lemma credit_magnitude_nonneg: "0 \<le> credit_magnitude rows"
  by (induction rows) (simp_all add: credit_magnitude_def)

lemma accumulate_in_range:
  assumes "\<bar>m\<bar> + 16 * credit_magnitude rows < 2 ^ 53"
  shows "accumulate rows (Fin (of_int m / 4)) t =
           (if graded rows
            then Inr (Fin (of_int m / 4 + weighted_sum rows), t + total_credits rows)
            else Inl none_has_no_upper)"
  using assms
proof (induction rows arbitrary: m t)
  case Nil
  then show ?case
    by (simp add: graded_def weighted_sum_def total_credits_def)
next
  case (Cons r rows)
  show ?case
  proof (cases "nilai r")
    case None
    then show ?thesis
      by (simp add: graded_def bobot_sks_matkul_def convert_grade_to_weight_def)
  next
    case (Some g)
    obtain n where n: "0 \<le> n" "n \<le> 16" "spec_weight g = of_int n / 4"
      using spec_weight_quarters by blast
    have mag: "0 \<le> credit_magnitude rows"
      by (rule credit_magnitude_nonneg)
    have ns: "\<bar>n * sks r\<bar> \<le> 16 * \<bar>sks r\<bar>"
      using n(1,2) by (simp add: abs_mult mult_right_mono)
    have s: "\<bar>sks r\<bar> < 2 ^ 49"
      using Cons.prems mag by simp
    have prod: "fmul_int (Fin (spec_weight g)) (sks r) = Inr (Fin (spec_weight g * of_int (sks r)))"
      by (rule fmul_int_weight [OF s])
    define m' where "m' = m + n * sks r"
    have m': "\<bar>m'\<bar> + 16 * credit_magnitude rows < 2 ^ 53"
      using Cons.prems ns by (simp add: m'_def)
    then have "\<bar>m'\<bar> < 2 ^ 53"
      using mag by linarith
    from to_double_quarters [OF this]
    have add: "fadd (Fin (of_int m / 4)) (Fin (spec_weight g * of_int (sks r))) = Fin (of_int m' / 4)"
      by (simp add: m'_def n(3) add_divide_distrib)
    have step: "accumulate (r # rows) (Fin (of_int m / 4)) t =
                  accumulate rows (Fin (of_int m' / 4)) (t + sks r)"
      using add by (simp add: bobot_sks_matkul_def Some convert_grade_to_weight_Some prod)
    have sum: "of_int m' / 4 + weighted_sum rows = of_int m / 4 + weighted_sum (r # rows)"
      by (simp add: m'_def weighted_sum_def row_weight_def Some n(3) add_divide_distrib)
    show ?thesis
      unfolding step Cons.IH [OF m'] sum
      by (simp add: graded_def Some total_credits_def)
  qed
qed

subsection \<open>The division and the rounding of the output\<close>

lemma weighted_sum_quarters:
  "\<exists>m. \<bar>m\<bar> \<le> 16 * credit_magnitude rows \<and> weighted_sum rows = of_int m / 4"
proof (induction rows)
  case Nil
  show ?case
    by (rule exI [of _ 0]) (simp add: weighted_sum_def credit_magnitude_def)
next
  case (Cons r rows)
  then obtain m where m: "\<bar>m\<bar> \<le> 16 * credit_magnitude rows" "weighted_sum rows = of_int m / 4"
    by blast
  obtain n :: int where n: "0 \<le> n" "n \<le> 16" "row_weight r = of_int n / 4"
  proof (cases "nilai r")
    case None
    then have "row_weight r = of_int 0 / 4" by (simp add: row_weight_def)
    then show ?thesis using that [of 0] by simp
  next
    case (Some g)
    then show ?thesis
      using spec_weight_quarters [of g] that by (auto simp: row_weight_def)
  qed
  have "\<bar>n * sks r\<bar> \<le> 16 * \<bar>sks r\<bar>"
    using n(1,2) by (simp add: abs_mult mult_right_mono)
  then have "\<bar>n * sks r + m\<bar> \<le> 16 * credit_magnitude (r # rows)"
    using m(1) by simp
  moreover have "weighted_sum (r # rows) = of_int (n * sks r + m) / 4"
    using m(2) by (simp add: weighted_sum_def n(3) add_divide_distrib)
  ultimately show ?case by blast
qed

lemma total_credits_abs: "\<bar>total_credits rows\<bar> \<le> credit_magnitude rows"
  by (induction rows) (simp_all add: total_credits_def credit_magnitude_def)

lemma to_double_bounded:
  assumes "\<bar>x\<bar> \<le> 2 powi k" and "- 1021 \<le> k" and "k < 1024"
  shows "to_double x = Fin (round64 x)"
proof -
  have "\<bar>round64 x\<bar> \<le> 2 powi k"
    by (rule round64_abs_le [OF assms(1,2)])
  also have "(2::rat) powi k < 2 powi 1024"
    using assms(3) by (intro power_int_strict_increasing) simp_all
  finally have "\<bar>round64 x\<bar> < 2 ^ 1024"
    by simp
  then show ?thesis
    by (rule to_double_finite)
qed

lemma round2_exact_quarters: "round2_exact (of_int m / 4) = of_int m / 4"
proof -
  have "(of_int m / 4 :: rat) * 100 = of_int (m * 25)"
    by simp
  then show ?thesis
    unfolding round2_exact_def by (simp only: round_half_even_of_int)
qed

lemma round2_exact_abs_le:
  assumes "\<bar>x\<bar> \<le> of_int b"
  shows "\<bar>round2_exact x\<bar> \<le> of_int b"
proof -
  have up: "x * 100 \<le> of_int (b * 100)" and lo: "of_int (- (b * 100)) \<le> x * 100"
    using assms by (simp_all add: abs_le_iff)
  have "\<bar>round_half_even (x * 100)\<bar> \<le> b * 100"
    using round_half_even_le [OF up] round_half_even_ge [OF lo] by linarith
  then have "\<bar>of_int (round_half_even (x * 100)) :: rat\<bar> \<le> of_int (b * 100)"
    by (metis of_int_abs of_int_le_iff)
  then show ?thesis
    by (simp add: round2_exact_def)
qed

lemma round2_exact_nonneg: "0 \<le> x \<Longrightarrow> 0 \<le> round2_exact x"
  using round_half_even_ge [of 0 "x * 100"] by (simp add: round2_exact_def)

lemma round64_zero [simp]: "round64 0 = 0"
  by (simp add: round64_def)

lemma to_double_zero [simp]: "to_double 0 = Fin 0"
  by (simp add: to_double_def)

lemma spec_gpa_abs_le:
  "\<bar>spec_gpa rows\<bar> \<le> 4 * of_int (credit_magnitude rows)"
proof -
  obtain m where m: "\<bar>m\<bar> \<le> 16 * credit_magnitude rows" "weighted_sum rows = of_int m / 4"
    using weighted_sum_quarters by blast
  have "\<bar>of_int m :: rat\<bar> \<le> of_int (16 * credit_magnitude rows)"
    using m(1) by (metis of_int_abs of_int_le_iff)
  then have s: "\<bar>weighted_sum rows\<bar> \<le> 4 * of_int (credit_magnitude rows)"
    by (simp add: m(2))
  show ?thesis
  proof (cases "total_credits rows = 0")
    case True
    then show ?thesis
      using credit_magnitude_nonneg [of rows] by (simp add: spec_gpa_def)
  next
    case False
    then have "1 \<le> \<bar>total_credits rows\<bar>" by linarith
    then have "(1::rat) \<le> \<bar>of_int (total_credits rows)\<bar>"
      by (metis of_int_abs of_int_le_iff of_int_1)
    then have "\<bar>weighted_sum rows / of_int (total_credits rows)\<bar> \<le> \<bar>weighted_sum rows\<bar>"
      by (simp add: divide_le_eq_1 abs_divide field_simps mult_le_cancel_left1)
    then show ?thesis
      using s False by (simp add: spec_gpa_def)
  qed
qed

lemma to_double_spec_gpa:
  assumes "credit_magnitude rows < 2 ^ 49"
  shows "to_double (spec_gpa rows) = Fin (round64 (spec_gpa rows))"
proof (rule to_double_bounded [where k = 51])
  have "(4::rat) * of_int (credit_magnitude rows) \<le> 4 * of_int (2 ^ 49)"
    using assms by simp
  then show "\<bar>spec_gpa rows\<bar> \<le> 2 powi 51"
    using spec_gpa_abs_le [of rows] by simp
qed simp_all

lemma ips_of_totals_in_range:
  assumes "credit_magnitude rows < 2 ^ 49"
  shows "ips_of_totals (Fin (weighted_sum rows)) (total_credits rows) = Inr (to_double (spec_gpa rows))"
proof (cases "total_credits rows = 0")
  case True
  then show ?thesis
    by (simp add: ips_of_totals_def spec_gpa_def)
next
  case False
  have "\<bar>total_credits rows\<bar> < 2 ^ 51"
    using total_credits_abs [of rows] assms by simp
  then have "float_of_int (total_credits rows) = Inr (Fin (of_int (total_credits rows)))"
    by (rule float_of_int_exact)
  then show ?thesis
    using False by (simp add: ips_of_totals_def fdiv_int_def spec_gpa_def)
qed

lemma py_round2_weighted_sum:
  assumes "credit_magnitude rows < 2 ^ 49"
  shows "py_round2 (Fin (weighted_sum rows)) = Fin (weighted_sum rows)"
proof -
  obtain m where m: "\<bar>m\<bar> \<le> 16 * credit_magnitude rows" "weighted_sum rows = of_int m / 4"
    using weighted_sum_quarters by blast
  have "\<bar>m\<bar> < 2 ^ 53"
    using m(1) assms by simp
  then show ?thesis
    by (simp add: m(2) round2_exact_quarters to_double_quarters)
qed

lemma compute_ips_in_range:
  assumes "graded (first # rest)" and "credit_magnitude (first # rest) < 2 ^ 49"
  shows "compute_ips (first # rest) =
           Inr \<lparr>mahasiswa =
                  \<lparr>info_nim = row_nim first, info_nama = row_nama first,
                   info_jurusan = row_jurusan first\<rparr>,
                total_sks_diambil = total_credits (first # rest),
                total_bobot_sks = Fin (weighted_sum (first # rest)),
                ips = py_round2 (to_double (spec_gpa (first # rest)))\<rparr>"
proof -
  let ?rows = "first # rest"
  have "\<bar>0::int\<bar> + 16 * credit_magnitude ?rows < 2 ^ 53"
    using assms(2) by simp
  from accumulate_in_range [OF this, of 0]
  have acc: "accumulate ?rows (Fin 0) 0 = Inr (Fin (weighted_sum ?rows), total_credits ?rows)"
    using assms(1) by simp
  show ?thesis
    unfolding compute_ips_def acc
    by (simp add: ips_of_totals_in_range [OF assms(2)] py_round2_weighted_sum [OF assms(2)]
             del: py_round2.simps)
qed

section \<open>Properties of the grade lookup\<close>

lemma upper_char_idem: "upper_char (upper_char c) = upper_char c"
  by (auto simp: upper_char_def Let_def)

lemma upper_char_lower_char: "upper_char (lower_char c) = upper_char c"
  by (simp add: upper_char_def lower_char_def Let_def)

lemma upper_upper: "upper (upper g) = upper g"
  by (simp add: upper_def upper_char_idem)

lemma upper_lower: "upper (lower g) = upper g"
  by (simp add: upper_def lower_def upper_char_lower_char)

lemma spec_weight_upper_cong: "upper g = upper h \<Longrightarrow> spec_weight g = spec_weight h"
  by (simp add: spec_weight_def)

lemma dict_get_absent:
  assumes "k \<notin> set (map fst d)"
  shows "dict_get d k v = v"
proof -
  have "map_of d k = None"
    using assms by (simp add: map_of_eq_None_iff)
  then show ?thesis
    by (simp add: dict_get_def)
qed

text \<open>
  C4. The lookup agrees with the fixed table on the eight letter grades, does not depend
  on the case of its argument, and any string that is not in the table once brought to
  upper case weighs 0.0, returned as a value.
\<close>

theorem grade_lookup_table:
  "convert_grade_to_weight (Some ''A'') = Inr (Fin 4)
   \<and> convert_grade_to_weight (Some ''B+'') = Inr (Fin (7 / 2))
   \<and> convert_grade_to_weight (Some ''B'') = Inr (Fin 3)
   \<and> convert_grade_to_weight (Some ''B-'') = Inr (Fin (11 / 4))
   \<and> convert_grade_to_weight (Some ''C+'') = Inr (Fin (5 / 2))
   \<and> convert_grade_to_weight (Some ''C'') = Inr (Fin 2)
   \<and> convert_grade_to_weight (Some ''D'') = Inr (Fin 1)
   \<and> convert_grade_to_weight (Some ''E'') = Inr (Fin 0)
   \<and> (upper g = upper h \<longrightarrow>
        convert_grade_to_weight (Some g) = convert_grade_to_weight (Some h))
   \<and> convert_grade_to_weight (Some (lower g)) = convert_grade_to_weight (Some g)
   \<and> convert_grade_to_weight (Some (upper g)) = convert_grade_to_weight (Some g)
   \<and> (upper g \<notin> set (map fst grade_map) \<longrightarrow> convert_grade_to_weight (Some g) = Inr (Fin 0))"
proof -
  have table: "convert_grade_to_weight (Some ''A'') = Inr (Fin 4)"
    "convert_grade_to_weight (Some ''B+'') = Inr (Fin (7 / 2))"
    "convert_grade_to_weight (Some ''B'') = Inr (Fin 3)"
    "convert_grade_to_weight (Some ''B-'') = Inr (Fin (11 / 4))"
    "convert_grade_to_weight (Some ''C+'') = Inr (Fin (5 / 2))"
    "convert_grade_to_weight (Some ''C'') = Inr (Fin 2)"
    "convert_grade_to_weight (Some ''D'') = Inr (Fin 1)"
    "convert_grade_to_weight (Some ''E'') = Inr (Fin 0)"
    by (simp_all add: convert_grade_to_weight_def dict_get_def grade_map_def upper_def upper_char_def)
  have cong: "upper g = upper h \<longrightarrow>
      convert_grade_to_weight (Some g) = convert_grade_to_weight (Some h)"
    by (simp add: convert_grade_to_weight_def)
  have low: "convert_grade_to_weight (Some (lower g)) = convert_grade_to_weight (Some g)"
    by (simp add: convert_grade_to_weight_def upper_lower)
  have up: "convert_grade_to_weight (Some (upper g)) = convert_grade_to_weight (Some g)"
    by (simp add: convert_grade_to_weight_def upper_upper)
  have absent: "upper g \<notin> set (map fst grade_map) \<longrightarrow> convert_grade_to_weight (Some g) = Inr (Fin 0)"
    by (simp add: convert_grade_to_weight_def dict_get_absent)
  show ?thesis
    using table cong low up absent by (intro conjI)
qed

theorem grade_lookup_table_witness:
  "upper ''b+'' = upper ''B+''
   \<and> convert_grade_to_weight (Some ''b+'') = Inr (Fin (7 / 2))
   \<and> convert_grade_to_weight (Some ''a'') = convert_grade_to_weight (Some ''A'')
   \<and> upper ''X'' \<notin> set (map fst grade_map)
   \<and> convert_grade_to_weight (Some ''X'') = Inr (Fin 0)"
proof -
  have u: "upper ''b+'' = upper ''B+''"
    by code_simp
  have x: "upper ''X'' \<notin> set (map fst grade_map)"
    by code_simp
  have l: "lower ''A'' = ''a''"
    by code_simp
  show ?thesis
    using u x l grade_lookup_table [of "''b+''" "''B+''"] grade_lookup_table [of "''X''" "''X''"]
      grade_lookup_table [of "''A''" "''A''"]
    by simp
qed

text \<open>
  C10. On strings the lookup is total: for every string, the empty one included, it
  returns a value (never an exception), and the value is one of the eight weights of the
  table.
\<close>

theorem grade_lookup_total:
  "convert_grade_to_weight (Some g)
     \<in> {Inr (Fin 4), Inr (Fin (7 / 2)), Inr (Fin 3), Inr (Fin (11 / 4)),
        Inr (Fin (5 / 2)), Inr (Fin 2), Inr (Fin 1), Inr (Fin 0)}"
  by (simp add: convert_grade_to_weight_def dict_get_def grade_map_def)

section \<open>Properties of the two routes\<close>

lemma calculate_ips_connected:
  assumes "connect_error d = None"
  shows "calculate_ips d n =
           (case calculate_ips_body d n of
              (evs, Inr v) \<Rightarrow> (Connect # evs @ [Commit, Close], Inr v)
            | (evs, Inl e) \<Rightarrow> (Connect # evs @ [Rollback, Close], ips_except (Inl e)))"
  using assms
  by (simp add: calculate_ips_def get_db_connection_def ips_except_def
           split: prod.split sum.split)

text \<open>
  C7. An identifier shorter than 5 characters is rejected by the validation of the
  route, with the client error 422, and the trace of store events is empty: no
  connection is opened and no query is issued.
\<close>

theorem short_nim_rejected:
  assumes "length n < 5"
  shows "get_api_acad_ips d n = ([], Inl RequestValidationError)
         \<and> 400 \<le> status_code RequestValidationError
         \<and> status_code RequestValidationError < 500"
  using assms by (simp add: get_api_acad_ips_def)

theorem short_nim_rejected_witness:
  "length ''123'' < 5
   \<and> get_api_acad_ips (sample_db [sample_row (Some ''A'') 3]) ''123'' = ([], Inl RequestValidationError)"
  using short_nim_rejected [of "''123''" "sample_db [sample_row (Some ''A'') 3]"] by simp

text \<open>
  C3. For an identifier of at least 5 characters whose query returns no row, on a
  reachable store, the route answers with the \<^verbatim>\<open>HTTPException\<close> of status 404 raised
  by the emptiness check: the transaction is rolled back, the answer is an error and
  not a response with a zero GPA, and the \<^verbatim>\<open>except\<close> clauses hand every
  \<^verbatim>\<open>HTTPException\<close> on as it is, so that the status stays 404 and does not become 500.
\<close>

theorem no_rows_not_found:
  assumes "5 \<le> length n" and "connect_error d = None" and "select_krs d n = Inr []"
  shows "get_api_acad_ips d n =
           ([Connect, Execute (SelectKrsJoin n), Rollback, Close],
            Inl (HandlerError (HTTPException 404 (not_found_detail n))))
         \<and> snd (calculate_ips_body d n) = Inl (RaisedHTTP (HTTPException 404 (not_found_detail n)))
         \<and> ips_except (Inl (RaisedHTTP h) :: raised + ips_response) = Inl h
         \<and> status_code (HandlerError (HTTPException 404 (not_found_detail n))) = 404"
proof -
  have body: "calculate_ips_body d n =
      ([Execute (SelectKrsJoin n)], Inl (RaisedHTTP (HTTPException 404 (not_found_detail n))))"
    using assms(3) by (simp add: calculate_ips_body_def)
  have "calculate_ips d n =
      ([Connect, Execute (SelectKrsJoin n), Rollback, Close],
       Inl (HTTPException 404 (not_found_detail n)))"
    by (simp add: calculate_ips_connected [OF assms(2)] body ips_except_def)
  then show ?thesis
    using assms(1) by (simp add: get_api_acad_ips_def body ips_except_def)
qed

theorem no_rows_not_found_witness:
  "5 \<le> length ''99999''
   \<and> connect_error (sample_db []) = None
   \<and> select_krs (sample_db []) ''99999'' = Inr []
   \<and> get_api_acad_ips (sample_db []) ''99999'' =
        ([Connect, Execute (SelectKrsJoin ''99999''), Rollback, Close],
         Inl (HandlerError (HTTPException 404 ''Data KRS tidak ditemukan untuk NIM 99999'')))"
proof -
  have h: "5 \<le> length ''99999''" "connect_error (sample_db []) = None"
    "select_krs (sample_db []) ''99999'' = Inr []"
    by (simp_all add: sample_db_def)
  show ?thesis
    using h no_rows_not_found [OF h] by (simp add: not_found_detail_def)
qed

text \<open>
  C8. The listing takes no input. On a reachable store whose query succeeds it returns
  one record with the four fields nim, nama, jurusan, angkatan for each row fetched, in
  the order of the rows, hence the empty list for an empty table. When the connection or
  the query fails it returns the \<^verbatim>\<open>HTTPException\<close> of status 500 carrying the
  message, and no list.
\<close>

theorem student_listing:
  "(connect_error d = None \<and> select_mahasiswa d = Inr rows \<longrightarrow>
      get_mahasiswas d =
        ([Connect, Execute SelectAllMahasiswa, Commit, Close], Inr (map mahasiswa_dict rows))
      \<and> (rows = [] \<longrightarrow> snd (get_mahasiswas d) = Inr []))
   \<and> mahasiswa_dict (c0, c1, c2, c3) = \<lparr>nim = c0, nama = c1, jurusan = c2, angkatan = c3\<rparr>
   \<and> (connect_error d = Some msg \<longrightarrow>
        get_mahasiswas d = ([Connect], Inl (HTTPException 500 msg)))
   \<and> (connect_error d = None \<and> select_mahasiswa d = Inl msg \<longrightarrow>
        get_mahasiswas d =
          ([Connect, Execute SelectAllMahasiswa, Rollback, Close], Inl (HTTPException 500 msg)))"
  by (simp add: get_mahasiswas_def get_mahasiswas_body_def get_db_connection_def
        mahasiswa_dict_def)

theorem student_listing_witness:
  "get_mahasiswas (sample_db []) =
     ([Connect, Execute SelectAllMahasiswa, Commit, Close],
      Inr [\<lparr>nim = ''12345'', nama = ''Budi'', jurusan = ''Informatika'', angkatan = 2023\<rparr>,
           \<lparr>nim = ''67890'', nama = ''Sari'', jurusan = ''Sistem Informasi'', angkatan = 2022\<rparr>])
   \<and> get_mahasiswas unreachable_db = ([Connect], Inl (HTTPException 500 ''connection refused''))
   \<and> get_mahasiswas failing_db =
        ([Connect, Execute SelectAllMahasiswa, Rollback, Close],
         Inl (HTTPException 500 ''relation does not exist''))"
proof -
  have a: "connect_error (sample_db []) = None \<and>
      select_mahasiswa (sample_db []) =
        Inr [(''12345'', ''Budi'', ''Informatika'', 2023), (''67890'', ''Sari'', ''Sistem Informasi'', 2022)]"
    by (simp add: sample_db_def)
  have b: "connect_error unreachable_db = Some ''connection refused''"
    by (simp add: unreachable_db_def)
  have c: "connect_error failing_db = None \<and> select_mahasiswa failing_db = Inl ''relation does not exist''"
    by (simp add: failing_db_def)
  show ?thesis
    using a b c
      student_listing [of "sample_db []"
        "[(''12345'', ''Budi'', ''Informatika'', 2023), (''67890'', ''Sari'', ''Sistem Informasi'', 2022)]"]
      student_listing [of unreachable_db _ _ _ _ _ "''connection refused''"]
      student_listing [of failing_db _ _ _ _ _ "''relation does not exist''"]
    by (simp add: mahasiswa_dict_def)
qed

text \<open>
  C2. A row whose grade is SQL NULL: the lookup calls \<^verbatim>\<open>.upper()\<close> on
  \<^verbatim>\<open>None\<close>, the \<^verbatim>\<open>AttributeError\<close> leaves the loop, and the route answers with
  status 500 instead of a GPA in which the row weighs 0.0.
\<close>

theorem null_grade_is_server_error:
  "get_api_acad_ips (sample_db [sample_row None 3]) ''12345'' =
     ([Connect, Execute (SelectKrsJoin ''12345''), Rollback, Close],
      Inl (HandlerError
             (HTTPException 500
                (''Terjadi kesalahan server: '' @ CHR 0x27 # ''NoneType'' @ CHR 0x27
                   # '' object has no attribute '' @ CHR 0x27 # ''upper'' @ [CHR 0x27]))))"
  by (simp add: get_api_acad_ips_def calculate_ips_def get_db_connection_def
        calculate_ips_body_def sample_db_def sample_row_def compute_ips_def
        bobot_sks_matkul_def convert_grade_to_weight_def none_has_no_upper_def ips_except_def)

section \<open>Properties of the IPS computation\<close>

subsection \<open>The response for rows within the range\<close>

lemma sum_list_map_mset_cong:
  fixes f :: "'a \<Rightarrow> 'b::comm_monoid_add"
  assumes "mset xs = mset ys"
  shows "sum_list (map f xs) = sum_list (map f ys)"
proof -
  have "sum_list (map f xs) = sum_mset (image_mset f (mset xs))"
    by (metis mset_map sum_mset_sum_list)
  also have "\<dots> = sum_mset (image_mset f (mset ys))"
    by (simp add: assms)
  also have "\<dots> = sum_list (map f ys)"
    by (metis mset_map sum_mset_sum_list)
  finally show ?thesis .
qed

lemma graded_mset_cong: "mset xs = mset ys \<Longrightarrow> graded xs = graded ys"
  by (metis graded_def list_all_iff set_mset_mset)

lemma compute_ips_in_range_cases:
  assumes "credit_magnitude rows < 2 ^ 49"
  shows "compute_ips rows =
           (if \<not> graded rows then Inl none_has_no_upper
            else case rows of
                   [] \<Rightarrow> Inl (IndexError ''list index out of range'')
                 | first # _ \<Rightarrow>
                     Inr \<lparr>mahasiswa =
                            \<lparr>info_nim = row_nim first, info_nama = row_nama first,
                             info_jurusan = row_jurusan first\<rparr>,
                          total_sks_diambil = total_credits rows,
                          total_bobot_sks = Fin (weighted_sum rows),
                          ips = py_round2 (to_double (spec_gpa rows))\<rparr>)"
proof (cases "graded rows")
  case False
  have "\<bar>0::int\<bar> + 16 * credit_magnitude rows < 2 ^ 53"
    using assms by simp
  from accumulate_in_range [OF this, of 0] False
  show ?thesis
    by (simp add: compute_ips_def)
next
  case True
  show ?thesis
  proof (cases rows)
    case Nil
    then show ?thesis
      by (simp add: compute_ips_def graded_def ips_of_totals_def)
  next
    case (Cons first rest)
    then show ?thesis
      using compute_ips_in_range [of first rest] True assms by simp
  qed
qed

lemma numbers_compute_ips_in_range:
  assumes "credit_magnitude rows < 2 ^ 49"
  shows "map_sum id numbers (compute_ips rows) =
           (if \<not> graded rows then Inl none_has_no_upper
            else if rows = [] then Inl (IndexError ''list index out of range'')
            else Inr (total_credits rows, Fin (weighted_sum rows),
                      py_round2 (to_double (spec_gpa rows))))"
  unfolding compute_ips_in_range_cases [OF assms]
  by (simp add: numbers_def split: list.split)

lemma get_api_acad_ips_rows:
  assumes "5 \<le> length n" and "connect_error d = None" and "select_krs d n = Inr rows"
    and "rows \<noteq> []" and "compute_ips rows = Inr r"
  shows "get_api_acad_ips d n = ([Connect, Execute (SelectKrsJoin n), Commit, Close], Inr r)"
proof -
  have body: "calculate_ips_body d n = ([Execute (SelectKrsJoin n)], Inr r)"
    using assms(3,4,5) by (simp add: calculate_ips_body_def)
  show ?thesis
    using assms(1) by (simp add: get_api_acad_ips_def calculate_ips_connected [OF assms(2)] body)
qed

text \<open>
  C1, as the code has it. For a non-empty list of rows that all carry a grade string and
  whose credit hours sum, in absolute value, to less than \<open>2\<^sup>4\<^sup>9\<close>, the route returns
  the total of the credit hours, the weighted sum \<open>\<Sum> weight \<times> credit\<close> exactly, and as
  GPA the quotient of the two, divided in floating point and rounded to two decimals by
  \<^verbatim>\<open>round\<close>; the GPA is 0.0 when the total is zero.
\<close>

theorem ips_gpa_in_range:
  assumes "5 \<le> length n" and "connect_error d = None"
    and "select_krs d n = Inr (first # rest)"
    and "graded (first # rest)" and "credit_magnitude (first # rest) < 2 ^ 49"
  shows "get_api_acad_ips d n =
           ([Connect, Execute (SelectKrsJoin n), Commit, Close],
            Inr \<lparr>mahasiswa =
                   \<lparr>info_nim = row_nim first, info_nama = row_nama first,
                    info_jurusan = row_jurusan first\<rparr>,
                 total_sks_diambil = total_credits (first # rest),
                 total_bobot_sks = Fin (weighted_sum (first # rest)),
                 ips = py_round2 (to_double (spec_gpa (first # rest)))\<rparr>)
         \<and> (total_credits (first # rest) \<noteq> 0 \<longrightarrow>
              spec_gpa (first # rest) =
                weighted_sum (first # rest) / of_int (total_credits (first # rest)))
         \<and> (total_credits (first # rest) = 0 \<longrightarrow>
              py_round2 (to_double (spec_gpa (first # rest))) = Fin 0)"
proof -
  have "get_api_acad_ips d n =
           ([Connect, Execute (SelectKrsJoin n), Commit, Close],
            Inr \<lparr>mahasiswa =
                   \<lparr>info_nim = row_nim first, info_nama = row_nama first,
                    info_jurusan = row_jurusan first\<rparr>,
                 total_sks_diambil = total_credits (first # rest),
                 total_bobot_sks = Fin (weighted_sum (first # rest)),
                 ips = py_round2 (to_double (spec_gpa (first # rest)))\<rparr>)"
    by (rule get_api_acad_ips_rows [OF assms(1,2,3) _ compute_ips_in_range [OF assms(4,5)]]) simp
  moreover have "round2_exact 0 = 0"
    by (simp add: round2_exact_def round_half_even_def)
  ultimately show ?thesis
    by (simp add: spec_gpa_def)
qed


theorem ips_gpa_in_range_witness:
  "5 \<le> length ''12345''
   \<and> graded [sample_row (Some ''A'') 3, sample_row (Some ''B+'') 4, sample_row (Some ''C'') 2]
   \<and> credit_magnitude
        [sample_row (Some ''A'') 3, sample_row (Some ''B+'') 4, sample_row (Some ''C'') 2] < 2 ^ 49
   \<and> get_api_acad_ips
        (sample_db [sample_row (Some ''A'') 3, sample_row (Some ''B+'') 4, sample_row (Some ''C'') 2])
        ''12345'' =
       ([Connect, Execute (SelectKrsJoin ''12345''), Commit, Close],
        Inr \<lparr>mahasiswa =
               \<lparr>info_nim = ''12345'', info_nama = ''Budi'', info_jurusan = ''Informatika''\<rparr>,
             total_sks_diambil = 9,
             total_bobot_sks = Fin 30,
             ips = to_double (333 / 100)\<rparr>)"
proof -
  let ?first = "sample_row (Some ''A'') 3"
  let ?rest = "[sample_row (Some ''B+'') 4, sample_row (Some ''C'') 2]"
  let ?d = "sample_db (?first # ?rest)"
  have h: "5 \<le> length ''12345''" "connect_error ?d = None"
    "select_krs ?d ''12345'' = Inr (?first # ?rest)"
    by (simp_all add: sample_db_def)
  have g: "graded (?first # ?rest)"
    by (simp add: graded_def sample_row_def)
  have m: "credit_magnitude (?first # ?rest) < 2 ^ 49"
    by (simp add: credit_magnitude_def sample_row_def)
  have t: "total_credits (?first # ?rest) = 9"
    by (simp add: total_credits_def sample_row_def)
  have w: "weighted_sum (?first # ?rest) = 30"
    by code_simp
  have q: "spec_gpa (?first # ?rest) = 10 / 3"
    by (simp add: spec_gpa_def t w)
  have r: "py_round2 (to_double (10 / 3)) = to_double (333 / 100)"
    by code_simp
  have f: "row_nim ?first = ''12345''" "row_nama ?first = ''Budi''"
    "row_jurusan ?first = ''Informatika''"
    by (simp_all add: sample_row_def)
  show ?thesis
    using ips_gpa_in_range [OF h g m] g m
    by (simp only: t w q r f) simp
qed

text \<open>
  The claim as it is worded fails beyond that range. Two rows with credit hours below
  \<open>2\<^sup>6\<^sup>3\<close>: the quotient of the sums is less than 2.005, which is 2.00 to two
  decimals, and the route returns 2.01.
\<close>

theorem ips_gpa_counterexample:
  "spec_gpa [sample_row (Some ''C'') 2040321033124548013, sample_row (Some ''B-'') 13693429752513745]
     < 401 / 200
   \<and> py_round2 (to_double
        (spec_gpa [sample_row (Some ''C'') 2040321033124548013,
                   sample_row (Some ''B-'') 13693429752513745])) = Fin 2
   \<and> map_sum id ips
        (snd (get_api_acad_ips
               (sample_db [sample_row (Some ''C'') 2040321033124548013,
                           sample_row (Some ''B-'') 13693429752513745])
               ''12345'')) = Inr (to_double (201 / 100))
   \<and> to_double (201 / 100) \<noteq> Fin 2"
  by code_simp

text \<open>
  C5, as the code has it. For rows whose credit hours sum, in absolute value, to less
  than \<open>2\<^sup>4\<^sup>9\<close>, every permutation of the rows gives the same result of the loop, and
  the same three numbers in the response (or the same exception).
\<close>

theorem totals_order_independent_in_range:
  assumes "mset rows' = mset rows" and "credit_magnitude rows < 2 ^ 49"
  shows "accumulate rows' (Fin 0) 0 = accumulate rows (Fin 0) 0
         \<and> map_sum id numbers (compute_ips rows') = map_sum id numbers (compute_ips rows)"
proof -
  have mag: "credit_magnitude rows' = credit_magnitude rows"
    unfolding credit_magnitude_def by (rule sum_list_map_mset_cong [OF assms(1)])
  have tot: "total_credits rows' = total_credits rows"
    unfolding total_credits_def by (rule sum_list_map_mset_cong [OF assms(1)])
  have ws: "weighted_sum rows' = weighted_sum rows"
    unfolding weighted_sum_def by (rule sum_list_map_mset_cong [OF assms(1)])
  have gr: "graded rows' = graded rows"
    by (rule graded_mset_cong [OF assms(1)])
  have gpa: "spec_gpa rows' = spec_gpa rows"
    by (simp add: spec_gpa_def tot ws)
  have emp: "(rows' = []) = (rows = [])"
    using assms(1) by (metis mset_zero_iff)
  have b: "\<bar>0::int\<bar> + 16 * credit_magnitude rows < 2 ^ 53"
    using assms(2) by simp
  have b': "\<bar>0::int\<bar> + 16 * credit_magnitude rows' < 2 ^ 53"
    using assms(2) mag by simp
  have "accumulate rows' (Fin 0) 0 = accumulate rows (Fin 0) 0"
    using accumulate_in_range [OF b, of 0] accumulate_in_range [OF b', of 0]
    by (simp add: gr ws tot)
  moreover have "map_sum id numbers (compute_ips rows') = map_sum id numbers (compute_ips rows)"
    using assms(2) mag
    by (simp add: numbers_compute_ips_in_range gr ws tot gpa emp del: py_round2.simps)
  ultimately show ?thesis by simp
qed

theorem totals_order_independent_in_range_witness:
  "mset [sample_row (Some ''C'') 2, sample_row (Some ''A'') 3, sample_row (Some ''B+'') 4]
     = mset [sample_row (Some ''A'') 3, sample_row (Some ''B+'') 4, sample_row (Some ''C'') 2]
   \<and> credit_magnitude
        [sample_row (Some ''A'') 3, sample_row (Some ''B+'') 4, sample_row (Some ''C'') 2] < 2 ^ 49
   \<and> accumulate [sample_row (Some ''C'') 2, sample_row (Some ''A'') 3, sample_row (Some ''B+'') 4]
        (Fin 0) 0
     = accumulate [sample_row (Some ''A'') 3, sample_row (Some ''B+'') 4, sample_row (Some ''C'') 2]
        (Fin 0) 0"
proof -
  have p: "mset [sample_row (Some ''C'') 2, sample_row (Some ''A'') 3, sample_row (Some ''B+'') 4]
     = mset [sample_row (Some ''A'') 3, sample_row (Some ''B+'') 4, sample_row (Some ''C'') 2]"
    by (simp add: add_mset_commute)
  have m: "credit_magnitude
        [sample_row (Some ''A'') 3, sample_row (Some ''B+'') 4, sample_row (Some ''C'') 2] < 2 ^ 49"
    by (simp add: credit_magnitude_def sample_row_def)
  show ?thesis
    using totals_order_independent_in_range [OF p m] p m by simp
qed

text \<open>
  Beyond that range the order matters. The second list is the first one reversed; the
  weighted sums that the loop accumulates, and that the response returns, differ.
\<close>

theorem totals_order_counterexample:
  "mset (rev [sample_row (Some ''D'') 3, sample_row (Some ''D'') 3, sample_row (Some ''A'') (2 ^ 53)])
     = mset [sample_row (Some ''D'') 3, sample_row (Some ''D'') 3, sample_row (Some ''A'') (2 ^ 53)]
   \<and> map_sum id numbers
        (compute_ips [sample_row (Some ''D'') 3, sample_row (Some ''D'') 3,
                      sample_row (Some ''A'') (2 ^ 53)])
     = Inr (2 ^ 53 + 6, Fin (2 ^ 55 + 8), Fin 4)
   \<and> map_sum id numbers
        (compute_ips (rev [sample_row (Some ''D'') 3, sample_row (Some ''D'') 3,
                           sample_row (Some ''A'') (2 ^ 53)]))
     = Inr (2 ^ 53 + 6, Fin (2 ^ 55), Fin 4)
   \<and> Fin (2 ^ 55 + 8) \<noteq> Fin (2 ^ 55)"
proof -
  have a: "map_sum id numbers
        (compute_ips [sample_row (Some ''D'') 3, sample_row (Some ''D'') 3,
                      sample_row (Some ''A'') (2 ^ 53)])
     = Inr (2 ^ 53 + 6, Fin (2 ^ 55 + 8), Fin 4)"
    by code_simp
  have b: "map_sum id numbers
        (compute_ips (rev [sample_row (Some ''D'') 3, sample_row (Some ''D'') 3,
                           sample_row (Some ''A'') (2 ^ 53)]))
     = Inr (2 ^ 53 + 6, Fin (2 ^ 55), Fin 4)"
    by code_simp
  show ?thesis
    using a b by simp
qed

subsection \<open>Bounds\<close>

lemma row_weight_bounds: "0 \<le> row_weight r \<and> row_weight r \<le> 4"
proof (cases "nilai r")
  case None
  then show ?thesis by (simp add: row_weight_def)
next
  case (Some g)
  have "spec_weight g \<in> {4, 7 / 2, 3, 11 / 4, 5 / 2, 2, 1, 0}"
    by (simp add: spec_weight_def Let_def)
  then show ?thesis
    using Some by (auto simp: row_weight_def)
qed

lemma nonnegative_credits_sums:
  assumes "nonnegative_credits rows"
  shows "0 \<le> weighted_sum rows
         \<and> weighted_sum rows \<le> 4 * of_int (total_credits rows)
         \<and> 0 \<le> total_credits rows
         \<and> credit_magnitude rows = total_credits rows"
  using assms
proof (induction rows)
  case Nil
  then show ?case
    by (simp add: weighted_sum_def total_credits_def credit_magnitude_def)
next
  case (Cons r rows)
  then have s: "0 \<le> sks r" and rest: "nonnegative_credits rows"
    by (simp_all add: nonnegative_credits_def)
  have w: "0 \<le> row_weight r" "row_weight r \<le> 4"
    using row_weight_bounds by simp_all
  have "(0::rat) \<le> of_int (sks r)"
    using s by simp
  then have "0 \<le> row_weight r * of_int (sks r)"
    and "row_weight r * of_int (sks r) \<le> 4 * of_int (sks r)"
    using w by (simp_all add: mult_right_mono)
  then show ?case
    using Cons.IH [OF rest] s
    by (simp add: weighted_sum_def total_credits_def credit_magnitude_def)
qed

lemma spec_gpa_bounds:
  assumes "nonnegative_credits rows"
  shows "0 \<le> spec_gpa rows \<and> spec_gpa rows \<le> 4"
proof (cases "total_credits rows = 0")
  case True
  then show ?thesis by (simp add: spec_gpa_def)
next
  case False
  then have "(0::rat) < of_int (total_credits rows)"
    using nonnegative_credits_sums [OF assms] by simp
  then show ?thesis
    using nonnegative_credits_sums [OF assms] False
    by (simp add: spec_gpa_def pos_divide_le_eq)
qed

lemma round64_unit_scale:
  assumes "0 \<le> x" and "x \<le> 4"
  shows "0 \<le> round64 x \<and> round64 x \<le> 4 \<and> to_double x = Fin (round64 x)"
proof -
  have a: "\<bar>x\<bar> \<le> 2 powi 2"
    using assms by simp
  have "\<bar>round64 x\<bar> \<le> 2 powi 2"
    by (rule round64_abs_le [OF a]) simp
  then have "round64 x \<le> 4"
    by simp
  moreover have "to_double x = Fin (round64 x)"
    by (rule to_double_bounded [OF a]) simp_all
  ultimately show ?thesis
    using round64_nonneg [OF assms(1)] by simp
qed

lemma round2_exact_unit_scale:
  assumes "0 \<le> x" and "x \<le> 4"
  shows "0 \<le> round2_exact x \<and> round2_exact x \<le> 4"
proof -
  have "\<bar>x\<bar> \<le> of_int 4"
    using assms by simp
  from round2_exact_abs_le [OF this] round2_exact_nonneg [OF assms(1)]
  show ?thesis by simp
qed

lemma round_half_even_mono:
  assumes "x \<le> y"
  shows "round_half_even x \<le> round_half_even y"
proof (cases "\<lfloor>x\<rfloor> = \<lfloor>y\<rfloor>")
  case True
  then have "x - of_int \<lfloor>x\<rfloor> \<le> y - of_int \<lfloor>y\<rfloor>"
    using assms by simp
  then show ?thesis
    using True by (simp add: round_half_even_def Let_def)
next
  case False
  then have "\<lfloor>x\<rfloor> < \<lfloor>y\<rfloor>"
    using floor_mono [OF assms] by linarith
  then have "\<lfloor>x\<rfloor> + 1 \<le> \<lfloor>y\<rfloor>"
    by simp
  moreover have "round_half_even x \<le> \<lfloor>x\<rfloor> + 1"
    by (simp add: round_half_even_def Let_def)
  ultimately show ?thesis
    using floor_le_round_half_even [of y] by linarith
qed

lemma flog2_ge:
  assumes "0 < x" and "2 powi k \<le> x"
  shows "k \<le> flog2 x"
proof (rule ccontr)
  assume "\<not> k \<le> flog2 x"
  then have "flog2 x + 1 \<le> k"
    by simp
  then have "(2::rat) powi (flog2 x + 1) \<le> 2 powi k"
    by (intro power_int_increasing) simp_all
  with flog2_bounds(2) [OF assms(1)] assms(2) show False
    by linarith
qed

lemma flog2_mono:
  assumes "0 < x" and "x \<le> y"
  shows "flog2 x \<le> flog2 y"
proof -
  have "0 < y" using assms by linarith
  moreover have "2 powi (flog2 x) \<le> y"
    using flog2_bounds(1) [OF assms(1)] assms(2) by linarith
  ultimately show ?thesis
    by (rule flog2_ge)
qed

lemma round64_pos_form:
  assumes "0 < x"
  shows "round64 x =
           of_int (round_half_even (x / 2 powi (max (flog2 x) (- 1022) - 52)))
             * 2 powi (max (flog2 x) (- 1022) - 52)"
  using assms by (simp add: round64_def Let_def)

lemma round64_ge_power:
  assumes "0 < x" and "- 1022 \<le> flog2 x"
  shows "2 powi (flog2 x) \<le> round64 x"
proof -
  define e where "e = flog2 x"
  define q where "q = (2::rat) powi (e - 52)"
  have qpos: "0 < q" by (simp add: q_def)
  have pe: "(2::rat) powi e = of_int (2 ^ 52) * q"
    by (simp add: q_def power_int_diff)
  have "of_int (2 ^ 52) * q \<le> x"
    using flog2_bounds(1) [OF assms(1)] by (simp add: e_def [symmetric] pe)
  then have "of_int (2 ^ 52) \<le> x / q"
    using qpos by (simp only: pos_le_divide_eq)
  then have "2 ^ 52 \<le> round_half_even (x / q)"
    by (rule round_half_even_ge)
  then have "(of_int (2 ^ 52) :: rat) \<le> of_int (round_half_even (x / q))"
    by (simp only: of_int_le_iff)
  then have "of_int (2 ^ 52) * q \<le> of_int (round_half_even (x / q)) * q"
    using qpos by (simp only: mult_le_cancel_right_pos)
  moreover have "round64 x = of_int (round_half_even (x / q)) * q"
    using assms by (simp add: round64_pos_form q_def e_def max_def)
  ultimately show ?thesis
    by (simp add: pe e_def [symmetric])
qed

lemma round64_mono:
  assumes "0 \<le> x" and "x \<le> y"
  shows "round64 x \<le> round64 y"
proof (cases "x = 0")
  case True
  then show ?thesis
    using round64_nonneg [of y] assms by (simp add: round64_def)
next
  case False
  then have x: "0 < x" and y: "0 < y"
    using assms by simp_all
  define ex where "ex = max (flog2 x) (- 1022)"
  define ey where "ey = max (flog2 y) (- 1022)"
  have le: "ex \<le> ey"
    using flog2_mono [OF x assms(2)] by (simp add: ex_def ey_def)
  show ?thesis
  proof (cases "ex = ey")
    case True
    define q where "q = (2::rat) powi (ex - 52)"
    have qpos: "0 < q" by (simp add: q_def)
    have "x / q \<le> y / q"
      using assms(2) qpos by (simp add: divide_right_mono)
    then have "round_half_even (x / q) \<le> round_half_even (y / q)"
      by (rule round_half_even_mono)
    then have "(of_int (round_half_even (x / q)) :: rat) * q \<le> of_int (round_half_even (y / q)) * q"
      using qpos by (simp only: mult_le_cancel_right_pos of_int_le_iff)
    then show ?thesis
      using x y True by (simp add: round64_pos_form q_def ex_def ey_def)
  next
    case False
    then have lt: "ex < ey" using le by simp
    then have fy: "ey = flog2 y" and ny: "- 1022 \<le> flog2 y"
      by (simp_all add: ex_def ey_def max_def split: if_splits)
    have "flog2 x \<le> ex"
      by (simp add: ex_def)
    then have "x < 2 powi (ex + 1)"
      using flog2_bounds(2) [OF x] power_int_increasing [of "flog2 x + 1" "ex + 1" "2::rat"]
      by simp
    then have "\<bar>x\<bar> \<le> 2 powi (ex + 1)"
      using x by simp
    then have "\<bar>round64 x\<bar> \<le> 2 powi (ex + 1)"
      by (rule round64_abs_le) (simp add: ex_def)
    then have "round64 x \<le> 2 powi (ex + 1)"
      by simp
    also have "(2::rat) powi (ex + 1) \<le> 2 powi (flog2 y)"
      using lt fy by (intro power_int_increasing) simp_all
    also have "\<dots> \<le> round64 y"
      by (rule round64_ge_power [OF y ny])
    finally show ?thesis .
  qed
qed

lemma round64_of_int_exact:
  assumes "\<bar>n\<bar> < 2 ^ 53" and "- 1074 \<le> k"
  shows "round64 (of_int n * 2 powi k) = of_int n * 2 powi k"
  by (rule round64_exact [OF refl assms])

lemma to_double_credit:
  assumes "0 \<le> s" and "s < 2 ^ 53"
  shows "to_double (of_int s) = Fin (of_int s)"
proof (rule to_double_Fin)
  have "\<bar>s\<bar> < 2 ^ 53" using assms by simp
  from round64_of_int_exact [OF this, of 0] show "round64 (of_int s) = of_int s"
    by simp
  have "(of_int s :: rat) < of_int (2 ^ 53)"
    using assms(2) by (simp only: of_int_less_iff)
  also have "(of_int (2 ^ 53) :: rat) < 2 ^ 1024"
    by simp
  finally show "\<bar>of_int s :: rat\<bar> < 2 ^ 1024"
    using assms(1) by simp
qed

lemma round64_le_four_times:
  assumes "0 \<le> x" and "x \<le> 4 * of_int n" and "n < 2 ^ 53"
  shows "0 \<le> round64 x \<and> round64 x \<le> 4 * of_int n \<and> to_double x = Fin (round64 x)"
proof -
  have n0: "0 \<le> n"
  proof (rule ccontr)
    assume "\<not> 0 \<le> n"
    then have "(of_int n :: rat) < 0" by simp
    with assms(1,2) show False by linarith
  qed
  then have "\<bar>n\<bar> < 2 ^ 53" using assms(3) by simp
  from round64_of_int_exact [OF this, of 2]
  have ex: "round64 (4 * of_int n) = 4 * of_int n"
    by (simp add: mult.commute)
  have up: "round64 x \<le> 4 * of_int n"
    using round64_mono [OF assms(1,2)] ex by simp
  have lo: "0 \<le> round64 x"
    by (rule round64_nonneg [OF assms(1)])
  have "(of_int n :: rat) < of_int (2 ^ 53)"
    using assms(3) by (simp only: of_int_less_iff)
  then have "4 * of_int n < (2::rat) ^ 55"
    by simp
  also have "(2::rat) ^ 55 < 2 ^ 1024"
    by (rule power_strict_increasing) simp_all
  finally have "\<bar>round64 x\<bar> < 2 ^ 1024"
    using up lo by simp
  from to_double_finite [OF this] up lo show ?thesis
    by simp
qed

lemma nonnegative_credits_Cons:
  "nonnegative_credits (r # rows) \<longleftrightarrow> 0 \<le> sks r \<and> nonnegative_credits rows"
  by (simp add: nonnegative_credits_def)

lemma graded_Cons: "graded (r # rows) \<longleftrightarrow> nilai r \<noteq> None \<and> graded rows"
  by (simp add: graded_def)

lemma total_credits_Cons: "total_credits (r # rows) = sks r + total_credits rows"
  by (simp add: total_credits_def)

lemma total_credits_nonneg: "nonnegative_credits rows \<Longrightarrow> 0 \<le> total_credits rows"
  using nonnegative_credits_sums by blast

lemma bobot_sks_matkul_bounded:
  assumes "nilai r \<noteq> None" and "0 \<le> sks r" and "sks r < 2 ^ 53"
  shows "\<exists>p. bobot_sks_matkul r = Inr (Fin p) \<and> 0 \<le> p \<and> p \<le> 4 * of_int (sks r)"
proof -
  from assms(1) obtain g where g: "nilai r = Some g" by auto
  have w: "0 \<le> spec_weight g" "spec_weight g \<le> 4"
    using row_weight_bounds [of r] by (simp_all add: row_weight_def g)
  have s: "(0::rat) \<le> of_int (sks r)"
    using assms(2) by simp
  have "0 \<le> spec_weight g * of_int (sks r)"
    and "spec_weight g * of_int (sks r) \<le> 4 * of_int (sks r)"
    using w s by (simp_all add: mult_right_mono)
  from round64_le_four_times [OF this assms(3)]
  have p: "0 \<le> round64 (spec_weight g * of_int (sks r))"
    "round64 (spec_weight g * of_int (sks r)) \<le> 4 * of_int (sks r)"
    "to_double (spec_weight g * of_int (sks r)) = Fin (round64 (spec_weight g * of_int (sks r)))"
    by simp_all
  have "bobot_sks_matkul r = Inr (Fin (round64 (spec_weight g * of_int (sks r))))"
    by (simp add: bobot_sks_matkul_def g convert_grade_to_weight_Some fmul_int_def
          float_of_int_def to_double_credit [OF assms(2,3)] p(3))
  then show ?thesis
    using p(1,2) by blast
qed

lemma accumulate_bounded:
  assumes "graded rows" and "nonnegative_credits rows"
    and "0 \<le> t" and "t + total_credits rows < 2 ^ 53"
    and "0 \<le> a" and "a \<le> 4 * of_int t"
  shows "\<exists>b. accumulate rows (Fin a) t = Inr (Fin b, t + total_credits rows)
             \<and> 0 \<le> b \<and> b \<le> 4 * of_int (t + total_credits rows)"
  using assms
proof (induction rows arbitrary: a t)
  case Nil
  then show ?case
    by (simp add: total_credits_def)
next
  case (Cons r rows)
  have g: "nilai r \<noteq> None" "graded rows"
    using Cons.prems(1) by (simp_all add: graded_Cons)
  have n: "0 \<le> sks r" "nonnegative_credits rows"
    using Cons.prems(2) by (simp_all add: nonnegative_credits_Cons)
  have rest0: "0 \<le> total_credits rows"
    by (rule total_credits_nonneg [OF n(2)])
  have tot: "t + sks r + total_credits rows < 2 ^ 53"
    using Cons.prems(4) by (simp add: total_credits_Cons)
  have s53: "sks r < 2 ^ 53" and ts53: "t + sks r < 2 ^ 53"
    using tot rest0 Cons.prems(3) n(1) by linarith+
  from bobot_sks_matkul_bounded [OF g(1) n(1) s53] obtain p
    where p: "bobot_sks_matkul r = Inr (Fin p)" "0 \<le> p" "p \<le> 4 * of_int (sks r)"
    by blast
  have "0 \<le> a + p" and "a + p \<le> 4 * of_int (t + sks r)"
    using Cons.prems(5,6) p(2,3) by simp_all
  from round64_le_four_times [OF this ts53]
  have a': "0 \<le> round64 (a + p)" "round64 (a + p) \<le> 4 * of_int (t + sks r)"
    "to_double (a + p) = Fin (round64 (a + p))"
    by simp_all
  have t': "0 \<le> t + sks r"
    using Cons.prems(3) n(1) by simp
  from Cons.IH [OF g(2) n(2) t' tot a'(1,2)] obtain b
    where b: "accumulate rows (Fin (round64 (a + p))) (t + sks r)
                = Inr (Fin b, t + sks r + total_credits rows)"
      "0 \<le> b" "b \<le> 4 * of_int (t + sks r + total_credits rows)"
    by blast
  have "accumulate (r # rows) (Fin a) t = Inr (Fin b, t + total_credits (r # rows))"
    using b(1) by (simp add: p(1) a'(3) total_credits_Cons add.assoc)
  moreover have "b \<le> 4 * of_int (t + total_credits (r # rows))"
    using b(3) by (simp add: total_credits_Cons add.assoc)
  ultimately show ?case
    using b(2) by blast
qed

lemma ips_of_totals_bounded:
  assumes "0 \<le> b" and "b \<le> 4 * of_int n" and "0 \<le> n" and "n < 2 ^ 53"
  shows "\<exists>v. ips_of_totals (Fin b) n = Inr (Fin v) \<and> 0 \<le> v \<and> v \<le> 4"
proof (cases "n = 0")
  case True
  then show ?thesis
    by (simp add: ips_of_totals_def)
next
  case False
  then have npos: "(0::rat) < of_int n"
    using assms(3) by simp
  have q: "0 \<le> b / of_int n" "b / of_int n \<le> 4"
    using assms(1,2) npos by (simp_all add: pos_divide_le_eq)
  from round64_unit_scale [OF q]
  have v: "0 \<le> round64 (b / of_int n)" "round64 (b / of_int n) \<le> 4"
    "to_double (b / of_int n) = Fin (round64 (b / of_int n))"
    by simp_all
  have "ips_of_totals (Fin b) n = Inr (Fin (round64 (b / of_int n)))"
    using False npos
    by (simp add: ips_of_totals_def fdiv_int_def float_of_int_def
          to_double_credit [OF assms(3,4)] v(3))
  then show ?thesis
    using v(1,2) by blast
qed

lemma py_round2_unit_scale:
  assumes "0 \<le> v" and "v \<le> 4"
  shows "\<exists>u. py_round2 (Fin v) = Fin u \<and> 0 \<le> u \<and> u \<le> 4"
proof -
  have "0 \<le> round2_exact v \<and> round2_exact v \<le> 4"
    by (rule round2_exact_unit_scale [OF assms])
  then have "0 \<le> round64 (round2_exact v) \<and> round64 (round2_exact v) \<le> 4
      \<and> to_double (round2_exact v) = Fin (round64 (round2_exact v))"
    by (intro round64_unit_scale) simp_all
  then show ?thesis
    by simp
qed

text \<open>
  C9, as the code has it. For a non-empty list of rows that all carry a grade string,
  with no negative credit hours and a total below \<open>2\<^sup>5\<^sup>3\<close>, the GPA is a finite float
  between 0 and 4, both as the division leaves it and as the response returns it after
  rounding.
\<close>

theorem gpa_within_scale:
  assumes "rows \<noteq> []" and "graded rows" and "nonnegative_credits rows"
    and "total_credits rows < 2 ^ 53"
  shows "\<exists>v u. unrounded_ips rows = Inr (Fin v) \<and> 0 \<le> v \<and> v \<le> 4
           \<and> map_sum id ips (compute_ips rows) = Inr (Fin u) \<and> 0 \<le> u \<and> u \<le> 4"
proof -
  have t0: "0 \<le> total_credits rows"
    by (rule total_credits_nonneg [OF assms(3)])
  from accumulate_bounded [OF assms(2,3), of 0 0] assms(4) obtain b
    where b: "accumulate rows (Fin 0) 0 = Inr (Fin b, total_credits rows)"
      "0 \<le> b" "b \<le> 4 * of_int (total_credits rows)"
    by auto
  from ips_of_totals_bounded [OF b(2,3) t0 assms(4)] obtain v
    where v: "ips_of_totals (Fin b) (total_credits rows) = Inr (Fin v)" "0 \<le> v" "v \<le> 4"
    by blast
  from py_round2_unit_scale [OF v(2,3)] obtain u
    where u: "py_round2 (Fin v) = Fin u" "0 \<le> u" "u \<le> 4"
    by blast
  have "unrounded_ips rows = Inr (Fin v)"
    by (simp add: unrounded_ips_def b(1) v(1))
  moreover have "map_sum id ips (compute_ips rows) = Inr (Fin u)"
    using assms(1) u(1)
    by (simp add: compute_ips_def b(1) v(1) split: list.split del: py_round2.simps)
  ultimately show ?thesis
    using v(2,3) u(2,3) by blast
qed

theorem gpa_within_scale_witness:
  "[sample_row (Some ''A'') 3, sample_row (Some ''B+'') 4, sample_row (Some ''C'') 2] \<noteq> []
   \<and> graded [sample_row (Some ''A'') 3, sample_row (Some ''B+'') 4, sample_row (Some ''C'') 2]
   \<and> nonnegative_credits
        [sample_row (Some ''A'') 3, sample_row (Some ''B+'') 4, sample_row (Some ''C'') 2]
   \<and> total_credits
        [sample_row (Some ''A'') 3, sample_row (Some ''B+'') 4, sample_row (Some ''C'') 2] < 2 ^ 53
   \<and> (\<exists>v u. unrounded_ips
                [sample_row (Some ''A'') 3, sample_row (Some ''B+'') 4, sample_row (Some ''C'') 2]
               = Inr (Fin v) \<and> 0 \<le> v \<and> v \<le> 4
            \<and> map_sum id ips
                 (compute_ips
                    [sample_row (Some ''A'') 3, sample_row (Some ''B+'') 4,
                     sample_row (Some ''C'') 2])
               = Inr (Fin u) \<and> 0 \<le> u \<and> u \<le> 4)"
proof -
  let ?rows = "[sample_row (Some ''A'') 3, sample_row (Some ''B+'') 4, sample_row (Some ''C'') 2]"
  have h: "?rows \<noteq> []" "graded ?rows" "nonnegative_credits ?rows" "total_credits ?rows < 2 ^ 53"
    by (simp_all add: graded_def nonnegative_credits_def total_credits_def sample_row_def)
  show ?thesis
    by (intro conjI h gpa_within_scale [OF h])
qed

text \<open>
  At a total of \<open>2\<^sup>5\<^sup>3 + 5\<close> the claim as it is worded fails: three rows graded A, with
  credit hours that are not negative, for which the division leaves a value above 4.
\<close>

theorem gpa_above_scale_counterexample:
  "graded [sample_row (Some ''A'') (2 ^ 52), sample_row (Some ''A'') (2 ^ 52 + 3),
           sample_row (Some ''A'') 2]
   \<and> nonnegative_credits
        [sample_row (Some ''A'') (2 ^ 52), sample_row (Some ''A'') (2 ^ 52 + 3),
         sample_row (Some ''A'') 2]
   \<and> total_credits
        [sample_row (Some ''A'') (2 ^ 52), sample_row (Some ''A'') (2 ^ 52 + 3),
         sample_row (Some ''A'') 2] = 2 ^ 53 + 5
   \<and> unrounded_ips
        [sample_row (Some ''A'') (2 ^ 52), sample_row (Some ''A'') (2 ^ 52 + 3),
         sample_row (Some ''A'') 2]
       = Inr (Fin (4503599627370497 / 1125899906842624))
   \<and> (4::rat) < 4503599627370497 / 1125899906842624"
  by code_simp

subsection \<open>The loop as a fold\<close>

lemma float_of_int_Inr: "float_of_int n = Inr y \<Longrightarrow> y = to_double (of_int n)"
  by (simp add: float_of_int_def split: pyfloat.splits)

lemma bobot_sks_matkul_Inr:
  assumes "bobot_sks_matkul row = Inr p"
  shows "nilai row \<noteq> None
         \<and> p = fmul (Fin (row_weight row)) (to_double (of_int (sks row)))"
proof (cases "nilai row")
  case None
  with assms show ?thesis
    by (simp add: bobot_sks_matkul_def convert_grade_to_weight_def)
next
  case (Some g)
  with assms obtain y where y: "float_of_int (sks row) = Inr y"
    and p: "p = fmul (Fin (spec_weight g)) y"
    by (auto simp: bobot_sks_matkul_def convert_grade_to_weight_Some fmul_int_def
          split: sum.splits)
  show ?thesis
    using float_of_int_Inr [OF y] p Some by (simp add: row_weight_def)
qed

lemma accumulate_products:
  assumes "accumulate rows a t = Inr (b, u)"
  shows "graded rows
         \<and> b = foldl fadd a
                 (map (\<lambda>row. fmul (Fin (row_weight row)) (to_double (of_int (sks row)))) rows)
         \<and> u = t + total_credits rows"
  using assms
proof (induction rows arbitrary: a t)
  case Nil
  then show ?case
    by (simp add: graded_def total_credits_def)
next
  case (Cons r rows)
  from Cons.prems obtain p where p: "bobot_sks_matkul r = Inr p"
    and rest: "accumulate rows (fadd a p) (t + sks r) = Inr (b, u)"
    by (auto split: sum.splits)
  show ?case
    using Cons.IH [OF rest] bobot_sks_matkul_Inr [OF p]
    by (simp add: graded_def total_credits_def)
qed

lemma ips_of_totals_Inr:
  assumes "ips_of_totals b u = Inr v"
  shows "(u = 0 \<longrightarrow> v = Fin 0) \<and> (u \<noteq> 0 \<longrightarrow> fdiv b (to_double (of_int u)) = Inr v)"
proof (cases "u = 0")
  case True
  with assms show ?thesis by (simp add: ips_of_totals_def)
next
  case False
  with assms obtain y where y: "float_of_int u = Inr y" and v: "fdiv b y = Inr v"
    by (auto simp: ips_of_totals_def fdiv_int_def split: sum.splits)
  show ?thesis
    using False float_of_int_Inr [OF y] v by simp
qed

text \<open>
  C6. Whenever a response is returned, every row carries a grade string, and the numbers
  of the response are these. The weighted sum is \<^verbatim>\<open>round(_, 2)\<close> of the plain
  left-to-right floating-point sum, started at 0.0, of the products weight of the grade
  times credit hours, each product being the one floating-point multiplication of the
  table weight by the credit hours converted to a float. The total is the integer sum of
  the credit hours. The GPA is \<^verbatim>\<open>round(_, 2)\<close> of 0.0 when the total is zero, and
  otherwise of the one floating-point division of that unrounded sum by the total
  converted to a float. No other rounding to decimals takes place: the loop ends with
  exactly that sum and that total, and the variable \<^verbatim>\<open>ips\<close> holds exactly that
  quotient.
\<close>

theorem rounding_only_at_output:
  assumes "compute_ips rows = Inr r"
  shows "graded rows
         \<and> accumulate rows (Fin 0) 0
             = Inr (foldl fadd (Fin 0)
                      (map (\<lambda>row. fmul (Fin (row_weight row)) (to_double (of_int (sks row)))) rows),
                    total_credits rows)
         \<and> total_sks_diambil r = total_credits rows
         \<and> total_bobot_sks r
             = py_round2
                 (foldl fadd (Fin 0)
                    (map (\<lambda>row. fmul (Fin (row_weight row)) (to_double (of_int (sks row)))) rows))
         \<and> (total_credits rows = 0 \<longrightarrow>
              unrounded_ips rows = Inr (Fin 0) \<and> ips r = py_round2 (Fin 0))
         \<and> (total_credits rows \<noteq> 0 \<longrightarrow>
              (\<exists>quotient.
                 fdiv (foldl fadd (Fin 0)
                         (map (\<lambda>row. fmul (Fin (row_weight row)) (to_double (of_int (sks row))))
                            rows))
                      (to_double (of_int (total_credits rows))) = Inr quotient
                 \<and> unrounded_ips rows = Inr quotient
                 \<and> ips r = py_round2 quotient))"
proof -
  let ?sum = "foldl fadd (Fin 0)
      (map (\<lambda>row. fmul (Fin (row_weight row)) (to_double (of_int (sks row)))) rows)"
  from assms obtain b u v where acc: "accumulate rows (Fin 0) 0 = Inr (b, u)"
    and div: "ips_of_totals b u = Inr v"
    and r: "total_sks_diambil r = u" "total_bobot_sks r = py_round2 b" "ips r = py_round2 v"
    by (auto simp: compute_ips_def split: sum.splits list.splits)
  from accumulate_products [OF acc]
  have g: "graded rows" and b: "b = ?sum" and u: "u = total_credits rows"
    by simp_all
  have un: "unrounded_ips rows = Inr v"
    by (simp add: unrounded_ips_def acc div)
  have zero: "total_credits rows = 0 \<longrightarrow> unrounded_ips rows = Inr (Fin 0) \<and> ips r = py_round2 (Fin 0)"
    using ips_of_totals_Inr [OF div] un r(3) u by simp
  have nonzero: "total_credits rows \<noteq> 0 \<longrightarrow>
      (\<exists>quotient. fdiv ?sum (to_double (of_int (total_credits rows))) = Inr quotient
         \<and> unrounded_ips rows = Inr quotient \<and> ips r = py_round2 quotient)"
  proof
    assume "total_credits rows \<noteq> 0"
    then have "fdiv ?sum (to_double (of_int (total_credits rows))) = Inr v"
      using ips_of_totals_Inr [OF div] u b by simp
    then show "\<exists>quotient. fdiv ?sum (to_double (of_int (total_credits rows))) = Inr quotient
         \<and> unrounded_ips rows = Inr quotient \<and> ips r = py_round2 quotient"
      using un r(3) by blast
  qed
  have "accumulate rows (Fin 0) 0 = Inr (?sum, total_credits rows)"
    using acc b u by simp
  moreover have "total_sks_diambil r = total_credits rows"
    using r(1) u by simp
  moreover have "total_bobot_sks r = py_round2 ?sum"
    using r(2) b by simp
  ultimately show ?thesis
    using g zero nonzero by (intro conjI)
qed

text \<open>
  Two rows whose products 2.75 and 2.5 are not integers: the sum 5.25 and the quotient
  2.625 are kept as they are, and the response holds 5.25 and 2.62.
\<close>

theorem rounding_only_at_output_witness:
  "compute_ips [sample_row (Some ''B-'') 1, sample_row (Some ''C+'') 1]
     = Inr \<lparr>mahasiswa =
            \<lparr>info_nim = ''12345'', info_nama = ''Budi'', info_jurusan = ''Informatika''\<rparr>,
          total_sks_diambil = 2, total_bobot_sks = Fin (21 / 4), ips = to_double (262 / 100)\<rparr>
   \<and> graded [sample_row (Some ''B-'') 1, sample_row (Some ''C+'') 1]
   \<and> (map (\<lambda>row. fmul (Fin (row_weight row)) (to_double (of_int (sks row)))) [sample_row (Some ''B-'') 1, sample_row (Some ''C+'') 1])
       = [Fin (11 / 4), Fin (5 / 2)]
   \<and> accumulate [sample_row (Some ''B-'') 1, sample_row (Some ''C+'') 1] (Fin 0) 0
       = Inr (foldl fadd (Fin 0)
                (map (\<lambda>row. fmul (Fin (row_weight row)) (to_double (of_int (sks row)))) [sample_row (Some ''B-'') 1, sample_row (Some ''C+'') 1]),
              total_credits [sample_row (Some ''B-'') 1, sample_row (Some ''C+'') 1])
   \<and> total_bobot_sks
        \<lparr>mahasiswa =
            \<lparr>info_nim = ''12345'', info_nama = ''Budi'', info_jurusan = ''Informatika''\<rparr>,
          total_sks_diambil = 2, total_bobot_sks = Fin (21 / 4), ips = to_double (262 / 100)\<rparr>
       = py_round2
           (foldl fadd (Fin 0)
              (map (\<lambda>row. fmul (Fin (row_weight row)) (to_double (of_int (sks row)))) [sample_row (Some ''B-'') 1, sample_row (Some ''C+'') 1]))
   \<and> (\<exists>quotient.
         fdiv (foldl fadd (Fin 0)
                 (map (\<lambda>row. fmul (Fin (row_weight row)) (to_double (of_int (sks row)))) [sample_row (Some ''B-'') 1, sample_row (Some ''C+'') 1]))
              (to_double (of_int (total_credits [sample_row (Some ''B-'') 1, sample_row (Some ''C+'') 1]))) = Inr quotient
         \<and> unrounded_ips [sample_row (Some ''B-'') 1, sample_row (Some ''C+'') 1] = Inr quotient
         \<and> ips
              \<lparr>mahasiswa =
            \<lparr>info_nim = ''12345'', info_nama = ''Budi'', info_jurusan = ''Informatika''\<rparr>,
          total_sks_diambil = 2, total_bobot_sks = Fin (21 / 4), ips = to_double (262 / 100)\<rparr>
             = py_round2 quotient)
   \<and> unrounded_ips [sample_row (Some ''B-'') 1, sample_row (Some ''C+'') 1] = Inr (Fin (21 / 8))"
proof -
  have c: "compute_ips [sample_row (Some ''B-'') 1, sample_row (Some ''C+'') 1]
     = Inr \<lparr>mahasiswa =
            \<lparr>info_nim = ''12345'', info_nama = ''Budi'', info_jurusan = ''Informatika''\<rparr>,
          total_sks_diambil = 2, total_bobot_sks = Fin (21 / 4), ips = to_double (262 / 100)\<rparr>"
    by code_simp
  have p: "(map (\<lambda>row. fmul (Fin (row_weight row)) (to_double (of_int (sks row)))) [sample_row (Some ''B-'') 1, sample_row (Some ''C+'') 1])
       = [Fin (11 / 4), Fin (5 / 2)]"
    by code_simp
  have u: "unrounded_ips [sample_row (Some ''B-'') 1, sample_row (Some ''C+'') 1] = Inr (Fin (21 / 8))"
    by code_simp
  have t: "total_credits [sample_row (Some ''B-'') 1, sample_row (Some ''C+'') 1] \<noteq> 0"
    by (simp add: total_credits_def sample_row_def)
  note r = rounding_only_at_output [OF c]
  note r1 = conjunct1 [OF r]
  note r2 = conjunct1 [OF conjunct2 [OF r]]
  note r4 = conjunct1 [OF conjunct2 [OF conjunct2 [OF conjunct2 [OF r]]]]
  note r6 = conjunct2 [OF conjunct2 [OF conjunct2 [OF conjunct2 [OF conjunct2 [OF r]]]]]
  show ?thesis
    by (intro conjI c r1 p r2 r4 mp [OF r6 t] u)
qed

end
